theory Spec2Isabelle
  imports Main "HOL-Library.Char_ord" "HOL-Library.List_Lexorder" "HOL-Library.Product_Lexorder"
begin

section \<open>Documents, pipeline stages and the document store\<close>

text \<open>
  An identifier (\<open>ObjectId\<close>) is an opaque, totally ordered token; it is modelled as a
  natural number, and the conversion \<open>ObjectId(id)\<close> of the string form of an identifier
  is the identity. A document is a JavaScript object with scalar values: a list of
  (key, value) pairs in key order, the identifier under the key \<open>_id\<close>.
\<close>

type_synonym oid = nat

datatype val = Num int | Str string | Oid oid

type_synonym doc = "(string \<times> val) list"

text \<open>\<open>d[k]\<close>: \<open>None\<close> is JavaScript's \<open>undefined\<close>.\<close>

definition getv :: "doc \<Rightarrow> string \<Rightarrow> val option" where
  "getv d k = map_of d k"

definition Object_values :: "doc \<Rightarrow> val list" where
  "Object_values d = map snd d"

text \<open>
  The stages the class builds, and \<open>$project\<close>, which \<open>getTotalCount\<close> looks for:
  \<^item> \<open>Match (Test f (In vs))\<close> is \<open>{$match: {f: {$in: vs}}}\<close>, \<open>Eq v\<close> is \<open>{f: v}\<close>,
    \<open>Gt v\<close> and \<open>Lt v\<close> are \<open>{f: {$gt: v}}\<close> and \<open>{f: {$lt: v}}\<close> (the bound is
    \<open>None\<close> when the code reads it from a field the cursor document does not have);
  \<^item> \<open>Match (Or cs)\<close> is \<open>{$match: {$or: [{f1: c1}, ...]}}\<close>;
  \<^item> \<open>Sort f o\<close> is \<open>{$sort: {f: o}}\<close>, \<open>Limit n\<close> is \<open>{$limit: n}\<close>, \<open>Count c\<close> is
    \<open>{$count: c}\<close>, \<open>Project fs\<close> is the inclusion projection \<open>{$project: {f1: 1, ...}}\<close>.
\<close>

datatype cond = Eq val | In "val list" | Gt "val option" | Lt "val option"

datatype crit = Test string cond | Or "(string \<times> cond) list"

datatype stage = Match crit | Sort string int | Limit int | Count string | Project "string list"

text \<open>\<open>Object.keys(a)[0]\<close> of a stage.\<close>

fun Object_keys0 :: "stage \<Rightarrow> string" where
  "Object_keys0 (Match c) = ''$match''"
| "Object_keys0 (Sort f ord) = ''$sort''"
| "Object_keys0 (Limit n) = ''$limit''"
| "Object_keys0 (Count c) = ''$count''"
| "Object_keys0 (Project fs) = ''$project''"

text \<open>
  The ways a call fails: the error \<open>No record found for ID\<close> that \<open>findCursorModel\<close>
  throws (the specification's CursorNotFound), the \<open>TypeError\<close> of reading a property of
  \<open>null\<close>, a pipeline the store rejects, and the \<open>SyntaxError\<close> that \<open>new RegExp\<close> throws
  on a pattern that is not a regular expression.
\<close>

datatype error = CursorNotFound oid | TypeError | StoreError | SyntaxError

text \<open>
  Modelled from the spec: \<open>execute(pipeline)\<close> of section 6, the query engine of the
  document store, which is an external collaborator of the class (\<open>Model.aggregate\<close>).
  It applies the stages in order to the collection. Comparison operators compare values
  of one type only; a sort orders missing values first, then numbers, strings and
  identifiers, and keeps the order of the input among equal keys, in both directions; a
  count of no document yields no document; the store rejects a sort order other than
  \<open>1\<close> and \<open>-1\<close> and a limit that is not positive.
\<close>

fun val_less :: "val \<Rightarrow> val \<Rightarrow> bool" where
  "val_less (Num a) (Num b) = (a < b)"
| "val_less (Str a) (Str b) = (a < b)"
| "val_less (Oid a) (Oid b) = (a < b)"
| "val_less x y = False"

fun holds :: "cond \<Rightarrow> val option \<Rightarrow> bool" where
  "holds (Eq v) x = (x = Some v)"
| "holds (In vs) x = (case x of None \<Rightarrow> False | Some v \<Rightarrow> v \<in> set vs)"
| "holds (Gt b) x =
     (case b of None \<Rightarrow> False
      | Some bv \<Rightarrow> (case x of None \<Rightarrow> False | Some xv \<Rightarrow> val_less bv xv))"
| "holds (Lt b) x =
     (case b of None \<Rightarrow> False
      | Some bv \<Rightarrow> (case x of None \<Rightarrow> False | Some xv \<Rightarrow> val_less xv bv))"

fun matches :: "crit \<Rightarrow> doc \<Rightarrow> bool" where
  "matches (Test f c) d = holds c (getv d f)"
| "matches (Or cs) d = list_ex (\<lambda>fc. holds (snd fc) (getv d (fst fc))) cs"

fun sort_rank :: "val option \<Rightarrow> nat \<times> int \<times> string" where
  "sort_rank None = (0, 0, [])"
| "sort_rank (Some (Num n)) = (1, n, [])"
| "sort_rank (Some (Str s)) = (2, 0, s)"
| "sort_rank (Some (Oid k)) = (3, int k, [])"

fun exec_stage :: "stage \<Rightarrow> doc list \<Rightarrow> error + doc list" where
  "exec_stage (Match c) ds = Inr (filter (matches c) ds)"
| "exec_stage (Sort f ord) ds =
     (if ord = 1 then Inr (sort_key (\<lambda>d. sort_rank (getv d f)) ds)
      else if ord = - 1 then Inr (rev (sort_key (\<lambda>d. sort_rank (getv d f)) (rev ds)))
      else Inl StoreError)"
| "exec_stage (Limit n) ds = (if 0 < n then Inr (take (nat n) ds) else Inl StoreError)"
| "exec_stage (Count c) ds = Inr (if ds = [] then [] else [[(c, Num (int (length ds)))]])"
| "exec_stage (Project fs) ds =
     Inr (map (filter (\<lambda>kv. fst kv = ''_id'' \<or> fst kv \<in> set fs)) ds)"

fun aggregate :: "doc list \<Rightarrow> stage list \<Rightarrow> error + doc list" where
  "aggregate ds [] = Inr ds"
| "aggregate ds (st # sts) =
     (case exec_stage st ds of Inl e \<Rightarrow> Inl e | Inr ds' \<Rightarrow> aggregate ds' sts)"


section \<open>The constructor's parameters\<close>

text \<open>
  \<open>pagination.first\<close> is a number or \<open>undefined\<close> (\<open>None\<close>); \<open>pagination.after\<close> is the
  string form of an identifier, \<open>None\<close> standing for the falsy values (\<open>undefined\<close>, the
  empty string). In \<open>sort\<close>, the empty field name and the order \<open>0\<close> stand for the falsy
  values; \<open>search\<close> is a pattern, the empty string standing for \<open>null\<close>.
\<close>

record pagination =
  first :: "int option"
  after :: "oid option"

record sort_params =
  field :: string
  order :: int

record filter_param =
  ffield :: string
  fvalue :: "val list"


section \<open>String conversion and loose equality\<close>

text \<open>
  \<open>String(v)\<close>, the conversion that \<open>regex.exec\<close> and \<open>==\<close> apply to a value: a number is
  printed in decimal (as JavaScript prints an integer below \<open>10^21\<close>), an identifier by
  \<open>ObjectId.prototype.toString\<close>, as 24 lower-case hexadecimal digits.
\<close>

definition digit :: "nat \<Rightarrow> char" where
  "digit n = ''0123456789abcdef'' ! (n mod 16)"

fun dec :: "nat \<Rightarrow> string" where
  "dec n = (if n < 10 then [digit n] else dec (n div 10) @ [digit (n mod 10)])"

fun hex :: "nat \<Rightarrow> string" where
  "hex n = (if n < 16 then [digit n] else hex (n div 16) @ [digit (n mod 16)])"

declare dec.simps [simp del] hex.simps [simp del]

fun String :: "val \<Rightarrow> string" where
  "String (Num n) = (if n < 0 then CHR ''-'' # dec (nat (- n)) else dec (nat n))"
| "String (Str s) = s"
| "String (Oid k) = replicate (24 - length (hex k)) CHR ''0'' @ hex k"

text \<open>
  \<open>Number(s)\<close> for a string \<open>s\<close> of lower-case hexadecimal digits, the only strings it is
  applied to below. Such a string is a numeric literal in three cases: decimal digits
  only; \<open>0b\<close> followed by binary digits; decimal digits, \<open>e\<close>, decimal digits (an
  exponent). Every other string converts to \<open>NaN\<close> (\<open>None\<close>). \<open>hex_string_value\<close> is the
  mathematical value of the literal, and \<open>to_double\<close> rounds a number that is not
  negative to the nearest number JavaScript has (a double: 53 significant bits, ties to
  the even significand, \<open>None\<close> for \<open>Infinity\<close>).
\<close>

definition digit_value :: "char \<Rightarrow> int" where
  "digit_value c = (case map_of (zip ''0123456789'' [0..10]) c of None \<Rightarrow> 0 | Some d \<Rightarrow> d)"

definition numeral_value :: "int \<Rightarrow> string \<Rightarrow> int" where
  "numeral_value b s = foldl (\<lambda>acc c. b * acc + digit_value c) 0 s"

definition is_digit :: "char \<Rightarrow> bool" where
  "is_digit c = (c \<in> set ''0123456789'')"

definition is_binary_digit :: "char \<Rightarrow> bool" where
  "is_binary_digit c = (c \<in> set ''01'')"

definition hex_string_value :: "string \<Rightarrow> int option" where
  "hex_string_value s =
     (if s \<noteq> [] \<and> list_all is_digit s then Some (numeral_value 10 s)
      else if take 2 s = ''0b'' \<and> drop 2 s \<noteq> [] \<and> list_all is_binary_digit (drop 2 s)
      then Some (numeral_value 2 (drop 2 s))
      else
        (let m = takeWhile is_digit s; x = drop 1 (dropWhile is_digit s)
         in if m \<noteq> [] \<and> take 1 (dropWhile is_digit s) = ''e'' \<and> x \<noteq> [] \<and> list_all is_digit x
            then Some (numeral_value 10 m * 10 ^ nat (numeral_value 10 x)) else None))"

function bit_length :: "int \<Rightarrow> nat" where
  "bit_length n = (if n \<le> 0 then 0 else Suc (bit_length (n div 2)))"
  by auto

termination bit_length
  by (relation "measure nat") auto

declare bit_length.simps [simp del]

definition to_double :: "int \<Rightarrow> int option" where
  "to_double v =
     (if v < 2 ^ 53 then Some v
      else
        (let e = bit_length v - 53; q = v div 2 ^ e; r = v mod 2 ^ e;
             q' = (if 2 ^ e < 2 * r \<or> (2 * r = 2 ^ e \<and> odd q) then q + 1 else q)
         in if q' * 2 ^ e < 2 ^ 1024 then Some (q' * 2 ^ e) else None))"

text \<open>
  \<open>result._id == pagination.after\<close>, JavaScript's loose equality of a value with the
  string \<open>pagination.after\<close>, which is the string form \<open>String (Oid a)\<close> of the identifier
  \<open>a\<close>: \<open>undefined\<close> equals no string; a string equals it when it is the same string; an
  \<open>ObjectId\<close> is converted to its string form, and a number is compared with the number
  the string converts to.
\<close>

fun loose_equals_after :: "val option \<Rightarrow> oid \<Rightarrow> bool" where
  "loose_equals_after None a = False"
| "loose_equals_after (Some (Str t)) a = (t = String (Oid a))"
| "loose_equals_after (Some (Oid k)) a = (String (Oid k) = String (Oid a))"
| "loose_equals_after (Some (Num n)) a =
     (case hex_string_value (String (Oid a)) of
        None \<Rightarrow> False
      | Some v \<Rightarrow> to_double v = Some n)"


section \<open>filterResults\<close>

text \<open>
  \<open>new RegExp(pattern, flags)\<close> belongs to the JavaScript engine: the functions below
  take \<open>rx\<close>, where \<open>rx pattern flags\<close> is \<open>None\<close> when the constructor throws a
  \<open>SyntaxError\<close>, and else the regular expression, given by the values in which
  \<open>regex.exec(value)\<close> finds a match after converting them to strings. \<open>filterResults\<close>
  passes the flag \<open>i\<close>, which makes the match ignore letter case; the regular expression
  has no \<open>g\<close> flag, so \<open>exec\<close> keeps no state.

  \<open>filterResults_callback\<close> is the function given to \<open>results.filter\<close>: it takes the
  variable \<open>afterCursorModelCount\<close> of the enclosing scope and returns it updated, with
  the verdict. \<open>filter_with\<close> is \<open>Array.prototype.filter\<close> for such a callback.
\<close>

type_synonym regexp = "val \<Rightarrow> bool"

type_synonym regexp_constructor = "string \<Rightarrow> string \<Rightarrow> regexp option"

definition filterResults_callback ::
  "regexp \<Rightarrow> pagination option \<Rightarrow> doc \<Rightarrow> int \<Rightarrow> bool \<times> int" where
  "filterResults_callback regex pg result afterCursorModelCount =
     (case pg of
        None \<Rightarrow> (list_ex regex (Object_values result), afterCursorModelCount)
      | Some p \<Rightarrow>
          if first p = Some afterCursorModelCount then (False, afterCursorModelCount)
          else if after p \<noteq> None \<and> afterCursorModelCount = - 1 then
            (False,
             if (case after p of
                   None \<Rightarrow> False
                 | Some a \<Rightarrow> loose_equals_after (getv result ''_id'') a)
             then afterCursorModelCount + 1 else afterCursorModelCount)
          else if list_ex regex (Object_values result) then (True, afterCursorModelCount + 1)
          else (False, afterCursorModelCount))"

fun filter_with :: "('a \<Rightarrow> 's \<Rightarrow> bool \<times> 's) \<Rightarrow> 'a list \<Rightarrow> 's \<Rightarrow> 'a list" where
  "filter_with cb [] c = []"
| "filter_with cb (x # xs) c =
     (case cb x c of (keep, c') \<Rightarrow>
        if keep then x # filter_with cb xs c' else filter_with cb xs c')"

definition filterResults ::
  "regexp_constructor \<Rightarrow> doc list \<Rightarrow> string \<Rightarrow> pagination option \<Rightarrow> error + doc list" where
  "filterResults rx results search pg =
     (case rx search ''i'' of
        None \<Rightarrow> Inl SyntaxError
      | Some regex \<Rightarrow>
          Inr (filter_with (filterResults_callback regex pg) results
                 (case pg of None \<Rightarrow> 0 | Some p \<Rightarrow> if after p \<noteq> None then - 1 else 0)))"

text \<open>A document matches a regular expression when one of its values does.\<close>

definition doc_matches :: "regexp \<Rightarrow> doc \<Rightarrow> bool" where
  "doc_matches regex d = list_ex regex (Object_values d)"


section \<open>Arrays and the instance\<close>

text \<open>
  Pipelines are JavaScript arrays, shared by reference: the constructor receives the
  caller's array, and the methods copy the instance's array before they extend it. The
  memory maps the address of an array to its content; \<open>top\<close> is the next free address.
  \<open>slice\<close> allocates a copy and returns its address, \<open>push\<close> and \<open>unshift\<close> change an
  array in place, \<open>array_filter\<close> allocates the filtered array.
\<close>

record mem =
  cells :: "nat \<Rightarrow> stage list"
  top :: nat

definition slice :: "nat \<Rightarrow> mem \<Rightarrow> nat \<times> mem" where
  "slice a m = (top m, m\<lparr>cells := (cells m)(top m := cells m a), top := Suc (top m)\<rparr>)"

definition push :: "nat \<Rightarrow> stage \<Rightarrow> mem \<Rightarrow> mem" where
  "push a st m = m\<lparr>cells := (cells m)(a := cells m a @ [st])\<rparr>"

definition unshift :: "nat \<Rightarrow> stage \<Rightarrow> mem \<Rightarrow> mem" where
  "unshift a st m = m\<lparr>cells := (cells m)(a := st # cells m a)\<rparr>"

definition array_filter :: "(stage \<Rightarrow> bool) \<Rightarrow> nat \<Rightarrow> mem \<Rightarrow> nat \<times> mem" where
  "array_filter P a m =
     (top m, m\<lparr>cells := (cells m)(top m := filter P (cells m a)), top := Suc (top m)\<rparr>)"

record edge =
  node :: doc
  cursor :: "val option"

text \<open>
  The state of a program that holds one \<open>Pagination\<close> instance: the memory of arrays, the
  instance's fields, its memoized promises (\<open>this.promises.count\<close>, \<open>model\<close>, \<open>edge\<close>,
  \<open>cursor\<close>, \<open>nextPage\<close>: \<open>None\<close> while the key is unset, else the outcome the promise
  settles with), and the pipelines handed to \<open>Model.aggregate\<close> so far, in order.
  \<open>Model\<close> is the collection the Mongoose model queries.
\<close>

record engine =
  mem :: mem
  Model :: "doc list"
  aggregationPipeline :: nat
  search :: string
  pagination :: pagination
  sorting :: sort_params
  perPage :: "int option"
  p_count :: "(error + val option) option"
  p_model :: "(error + doc) option"
  p_edge :: "(error + edge list) option"
  p_cursor :: "(error + val option) option"
  p_nextPage :: "(error + bool) option"
  calls :: "stage list list"

text \<open>
  An asynchronous method is run to its end: it takes the state and returns its outcome,
  an error (a rejected promise) or a value, with the state it leaves. \<open>await\<close> passes a
  value on and lets an error through.
\<close>

type_synonym 'a async = "engine \<Rightarrow> (error + 'a) \<times> engine"

definition return :: "'a \<Rightarrow> 'a async" where
  "return x s = (Inr x, s)"

definition throw :: "error \<Rightarrow> 'a async" where
  "throw e s = (Inl e, s)"

definition await :: "'a async \<Rightarrow> ('a \<Rightarrow> 'b async) \<Rightarrow> 'b async" where
  "await m k s = (case m s of (Inl e, s') \<Rightarrow> (Inl e, s') | (Inr x, s') \<Rightarrow> k x s')"

text \<open>
  \<open>if (!this.promises.k) { this.promises.k = run(); } return this.promises.k;\<close>
\<close>

definition memo ::
  "(engine \<Rightarrow> (error + 'a) option) \<Rightarrow> ((error + 'a) option \<Rightarrow> engine \<Rightarrow> engine) \<Rightarrow>
   'a async \<Rightarrow> 'a async" where
  "memo slot set_slot run s =
     (case slot s of
        Some r \<Rightarrow> (r, s)
      | None \<Rightarrow> (case run s of (r, s') \<Rightarrow> (r, set_slot (Some r) s')))"

text \<open>\<open>this.Model.aggregate(pipeline)\<close>: the store reads the array and does not change it.\<close>

definition Model_aggregate :: "nat \<Rightarrow> doc list async" where
  "Model_aggregate a s =
     (aggregate (Model s) (cells (mem s) a), s\<lparr>calls := calls s @ [cells (mem s) a]\<rparr>)"

text \<open>
  The constructor of \<open>src/pagination.js\<close>, given the memory that holds the caller's
  array \<open>baseAggregationPipeline\<close>.
\<close>

definition constructor ::
  "mem \<Rightarrow> doc list \<Rightarrow> nat \<Rightarrow> pagination \<Rightarrow> sort_params \<Rightarrow> filter_param list \<Rightarrow> string \<Rightarrow>
   engine" where
  "constructor m0 collection baseAggregationPipeline pg so filters se =
     (case slice baseAggregationPipeline m0 of (a, m1) \<Rightarrow>
        let m2 = fold (\<lambda>f. push a (Match (Test (ffield f) (In (fvalue f))))) filters m1;
            m3 = (if field so \<noteq> [] \<and> order so \<noteq> 0
                  then push a (Sort (field so) (order so)) m2 else m2)
        in \<lparr>mem = m3, Model = collection, aggregationPipeline = a, search = se,
            pagination = pg, sorting = so, perPage = None, p_count = None, p_model = None,
            p_edge = None, p_cursor = None, p_nextPage = None, calls = []\<rparr>)"

definition getTotalCount_run :: "regexp_constructor \<Rightarrow> val option async" where
  "getTotalCount_run rx s =
     (case slice (aggregationPipeline s) (mem s) of (a, m1) \<Rightarrow>
        if search s \<noteq> [] then
          await (Model_aggregate a)
            (\<lambda>results.
               case filterResults rx results (search s) None of
                 Inl e \<Rightarrow> throw e
               | Inr matching \<Rightarrow> return (Some (Num (int (length matching)))))
            (s\<lparr>mem := m1\<rparr>)
        else
          (case array_filter (\<lambda>st. Object_keys0 st \<noteq> ''$project'') a
                  (push a (Count ''count'') m1) of
             (b, m3) \<Rightarrow>
               await (Model_aggregate b)
                 (\<lambda>countResults.
                    return (case countResults of [] \<Rightarrow> Some (Num 0) | r # rs \<Rightarrow> getv r ''count''))
                 (s\<lparr>mem := m3\<rparr>)))"

definition getTotalCount :: "regexp_constructor \<Rightarrow> val option async" where
  "getTotalCount rx = memo p_count (\<lambda>v. p_count_update (\<lambda>_. v)) (getTotalCount_run rx)"

definition findCursorModel_run :: "oid \<Rightarrow> doc async" where
  "findCursorModel_run cid s =
     (case slice (aggregationPipeline s) (mem s) of (a, m1) \<Rightarrow>
        await (Model_aggregate a)
          (\<lambda>results. case results of [] \<Rightarrow> throw (CursorNotFound cid) | r # rs \<Rightarrow> return r)
          (s\<lparr>mem := unshift a (Match (Test ''_id'' (Eq (Oid cid)))) m1\<rparr>))"

definition findCursorModel :: "oid \<Rightarrow> doc async" where
  "findCursorModel cid = memo p_model (\<lambda>v. p_model_update (\<lambda>_. v)) (findCursorModel_run cid)"

text \<open>
  The \<open>$or\<close> list that \<open>aggregationAddPagination\<close> builds from the cursor document.
\<close>

definition ors_of :: "sort_params \<Rightarrow> doc \<Rightarrow> oid \<Rightarrow> (string \<times> cond) list" where
  "ors_of so cursorModel aid =
     (let orderDirection = (if order so = 1 then Gt else Lt)
      in (if field so \<noteq> [] \<and> order so \<noteq> 0
          then [(field so, orderDirection (getv cursorModel (field so)))] else [])
         @ [(''_id'', Gt (Some (Oid aid)))])"

definition aggregationAddPagination :: "nat \<Rightarrow> oid option \<Rightarrow> nat async" where
  "aggregationAddPagination pipeline aft s =
     (case slice pipeline (mem s) of (a, m1) \<Rightarrow>
        await
          (case aft of
             None \<Rightarrow> return ()
           | Some aid \<Rightarrow>
               await (findCursorModel aid)
                 (\<lambda>cursorModel s1.
                    (Inr (),
                     s1\<lparr>mem := push a (Match (Or (ors_of (sorting s1) cursorModel aid)))
                                  (mem s1)\<rparr>)))
          (\<lambda>u s2.
             let n = (case first (pagination s2) of
                        None \<Rightarrow> 25 | Some k \<Rightarrow> if k = 0 then 25 else k)
             in (Inr a, s2\<lparr>perPage := Some n, mem := push a (Limit n) (mem s2)\<rparr>))
          (s\<lparr>mem := m1\<rparr>))"

definition to_edge :: "doc \<Rightarrow> edge" where
  "to_edge d = \<lparr>node = d, cursor = getv d ''_id''\<rparr>"

definition getEdges_run :: "regexp_constructor \<Rightarrow> edge list async" where
  "getEdges_run rx s =
     (if search s = [] then
        await (aggregationAddPagination (aggregationPipeline s) (after (pagination s)))
          (\<lambda>a. await (Model_aggregate a) (\<lambda>docs. return (map to_edge docs))) s
      else
        await (Model_aggregate (aggregationPipeline s))
          (\<lambda>docs s1.
             case filterResults rx docs (search s1) (Some (pagination s1)) of
               Inl e \<Rightarrow> throw e s1
             | Inr matching \<Rightarrow> return (map to_edge matching) s1)
          s)"

definition getEdges :: "regexp_constructor \<Rightarrow> edge list async" where
  "getEdges rx = memo p_edge (\<lambda>v. p_edge_update (\<lambda>_. v)) (getEdges_run rx)"

text \<open>The end cursor: \<open>None\<close> is \<open>null\<close> (and \<open>undefined\<close>, for a last document without \<open>_id\<close>).\<close>

definition getEndCursor_run :: "regexp_constructor \<Rightarrow> val option async" where
  "getEndCursor_run rx =
     await (getEdges rx) (\<lambda>edges. return (if edges = [] then None else cursor (last edges)))"

definition getEndCursor :: "regexp_constructor \<Rightarrow> val option async" where
  "getEndCursor rx = memo p_cursor (\<lambda>v. p_cursor_update (\<lambda>_. v)) (getEndCursor_run rx)"

text \<open>
  \<open>(await this.getEndCursor())._id\<close>: reading a property of \<open>null\<close> throws; an \<open>ObjectId\<close>
  answers \<open>_id\<close> with itself (the getter Mongoose adds to \<open>ObjectId\<close>); a number or a string
  has no such property, and the \<open>undefined\<close> that results is a falsy \<open>after\<close>.
\<close>

fun id_of :: "val option \<Rightarrow> error + oid option" where
  "id_of None = Inl TypeError"
| "id_of (Some (Oid k)) = Inr (Some k)"
| "id_of (Some v) = Inr None"

definition hasNextPage_run :: "regexp_constructor \<Rightarrow> bool async" where
  "hasNextPage_run rx =
     await (getEndCursor rx)
       (\<lambda>c. case id_of c of
               Inl e \<Rightarrow> throw e
             | Inr aft \<Rightarrow>
                 (\<lambda>s. await (aggregationAddPagination (aggregationPipeline s) aft)
                        (\<lambda>a. await (Model_aggregate a) (\<lambda>docs. return (0 < length docs))) s))"

definition hasNextPage :: "regexp_constructor \<Rightarrow> bool async" where
  "hasNextPage rx = memo p_nextPage (\<lambda>v. p_nextPage_update (\<lambda>_. v)) (hasNextPage_run rx)"


section \<open>A matcher for literal patterns, and a caller's memory\<close>

text \<open>
  Modelled from the spec: the case-insensitive match over stringified values of section
  4.4, for a pattern without metacharacters (letters and digits). Such a pattern is a
  regular expression, and \<open>new RegExp(p, flags).exec(v)\<close> finds a match exactly when \<open>p\<close>
  occurs in \<open>String(v)\<close>, letter case aside when the flags hold \<open>i\<close>. The theorems below
  hold for every regular-expression engine; this one instantiates them.
\<close>

definition lower_char :: "char \<Rightarrow> char" where
  "lower_char c =
     (case map_of (zip ''ABCDEFGHIJKLMNOPQRSTUVWXYZ'' ''abcdefghijklmnopqrstuvwxyz'') c of
        None \<Rightarrow> c | Some l \<Rightarrow> l)"

fun starts_with :: "string \<Rightarrow> string \<Rightarrow> bool" where
  "starts_with [] ys = True"
| "starts_with (x # xs) [] = False"
| "starts_with (x # xs) (y # ys) = (x = y \<and> starts_with xs ys)"

fun occurs_in :: "string \<Rightarrow> string \<Rightarrow> bool" where
  "occurs_in p [] = (p = [])"
| "occurs_in p (y # ys) = (starts_with p (y # ys) \<or> occurs_in p ys)"

definition regex_literal :: regexp_constructor where
  "regex_literal p flags =
     Some (\<lambda>v. if CHR ''i'' \<in> set flags
               then occurs_in (map lower_char p) (map lower_char (String v))
               else occurs_in p (String v))"

text \<open>The memory of a caller that holds one array, at address 0.\<close>

definition caller_mem :: "stage list \<Rightarrow> mem" where
  "caller_mem base = \<lparr>cells = (\<lambda>a. [])(0 := base), top = 1\<rparr>"


text \<open>A collection of three documents, the scores not in the order of the identifiers.\<close>

definition db3 :: "doc list" where
  "db3 = [[(''_id'', Oid 1), (''score'', Num 1)], [(''_id'', Oid 2), (''score'', Num 5)],
          [(''_id'', Oid 3), (''score'', Num 9)]]"

text \<open>
  The constructor of the second variant of the class (\<open>src/unnamed/part_000\<close>): it keeps
  the caller's array itself and pushes the filter and sort stages into it. In this
  variant a filter matches its value for equality.
\<close>

record filter_param0 =
  ffield0 :: string
  fvalue0 :: val

definition constructor_part_000 ::
  "mem \<Rightarrow> doc list \<Rightarrow> nat \<Rightarrow> pagination \<Rightarrow> sort_params \<Rightarrow> filter_param0 list \<Rightarrow> string \<Rightarrow>
   engine" where
  "constructor_part_000 m0 collection baseAggregationPipeline pg so filters se =
     (let a = baseAggregationPipeline;
          m2 = fold (\<lambda>f. push a (Match (Test (ffield0 f) (Eq (fvalue0 f))))) filters m0;
          m3 = (if field so \<noteq> [] \<and> order so \<noteq> 0
                then push a (Sort (field so) (order so)) m2 else m2)
      in \<lparr>mem = m3, Model = collection, aggregationPipeline = a, search = se,
          pagination = pg, sorting = so, perPage = None, p_count = None, p_model = None,
          p_edge = None, p_cursor = None, p_nextPage = None, calls = []\<rparr>)"

text \<open>
  \<open>filterResults\<close> of the second variant: the regular expression is compiled without a
  flag, and there is no pagination.
\<close>

definition filterResults_part_000 ::
  "regexp_constructor \<Rightarrow> doc list \<Rightarrow> string \<Rightarrow> error + doc list" where
  "filterResults_part_000 rx results pattern =
     (case rx pattern [] of
        None \<Rightarrow> Inl SyntaxError
      | Some regex \<Rightarrow> Inr (filter (\<lambda>result. list_ex regex (Object_values result)) results))"

text \<open>
  A client that fetches \<open>n\<close> consecutive pages in native mode: each request constructs an
  instance with \<open>after\<close> set to the end cursor of the page before (absent for the first
  page) and calls \<open>getEdges\<close> and \<open>getEndCursor\<close>; the client stops at an empty page. The
  result is the list of pages, each the list of its edges' nodes.
\<close>

fun fetch_pages ::
  "regexp_constructor \<Rightarrow> nat \<Rightarrow> mem \<Rightarrow> doc list \<Rightarrow> nat \<Rightarrow> int option \<Rightarrow> sort_params \<Rightarrow>
   filter_param list \<Rightarrow> oid option \<Rightarrow> error + doc list list" where
  "fetch_pages rx 0 m collection base fst_opt so filters aft = Inr []"
| "fetch_pages rx (Suc n) m collection base fst_opt so filters aft =
     (case getEdges rx
             (constructor m collection base \<lparr>first = fst_opt, after = aft\<rparr> so filters []) of
        (Inl e, s1) \<Rightarrow> Inl e
      | (Inr edges, s1) \<Rightarrow>
          (case getEndCursor rx s1 of
             (Inl e, s2) \<Rightarrow> Inl e
           | (Inr None, s2) \<Rightarrow> Inr [map node edges]
           | (Inr (Some (Oid k)), s2) \<Rightarrow>
               (case fetch_pages rx n m collection base fst_opt so filters (Some k) of
                  Inl e \<Rightarrow> Inl e
                | Inr pages \<Rightarrow> Inr (map node edges # pages))
           | (Inr (Some v), s2) \<Rightarrow> Inr [map node edges]))"

text \<open>Twenty-six documents with the name \<open>x\<close>; three documents with a status.\<close>

definition docs26 :: "doc list" where
  "docs26 = map (\<lambda>k. [(''_id'', Oid k), (''name'', Str ''x'')]) [1..<27]"

definition db_status :: "doc list" where
  "db_status =
     [[(''_id'', Oid 1), (''name'', Str ''ann''), (''status'', Str ''active'')],
      [(''_id'', Oid 2), (''name'', Str ''bob''), (''status'', Str ''active'')],
      [(''_id'', Oid 3), (''name'', Str ''cy''), (''status'', Str ''closed'')]]"

text \<open>
  The collections of the specification's two scenarios: thirty documents with the
  identifiers 1 to 30, and four documents with the scores 5, 5, 3, 1.
\<close>

definition doc_with_id :: "oid \<Rightarrow> doc" where
  "doc_with_id k = [(''_id'', Oid k)]"

definition docs30 :: "doc list" where
  "docs30 = map doc_with_id [1..<31]"

definition db4 :: "doc list" where
  "db4 = [[(''_id'', Oid 10), (''score'', Num 5)], [(''_id'', Oid 11), (''score'', Num 5)],
          [(''_id'', Oid 12), (''score'', Num 3)], [(''_id'', Oid 13), (''score'', Num 1)]]"

text \<open>
  \<open>frame m m'\<close>: every array allocated in \<open>m\<close> has the same content in \<open>m'\<close>.
\<close>

definition frame :: "mem \<Rightarrow> mem \<Rightarrow> bool" where
  "frame m m' = (top m \<le> top m' \<and> (\<forall>a. a < top m \<longrightarrow> cells m' a = cells m a))"

text \<open>
  \<open>same_request s s'\<close>: the state \<open>s'\<close> holds the instance of \<open>s\<close> with the same
  collection, pipeline address, search, pagination and sort parameters, and every array
  of \<open>s\<close> unchanged.
\<close>

definition same_request :: "engine \<Rightarrow> engine \<Rightarrow> bool" where
  "same_request s s' =
     (Model s' = Model s \<and> aggregationPipeline s' = aggregationPipeline s
      \<and> search s' = search s \<and> pagination s' = pagination s \<and> sorting s' = sorting s
      \<and> frame (mem s) (mem s'))"

text \<open>The end cursor that belongs to an outcome of \<open>getEdges\<close>.\<close>

definition end_cursor_of :: "error + edge list \<Rightarrow> error + val option" where
  "end_cursor_of r =
     (case r of Inl e \<Rightarrow> Inl e
      | Inr edges \<Rightarrow> Inr (if edges = [] then None else cursor (last edges)))"

text \<open>
  The states of an instance: the state \<open>s0\<close> the constructor returns, and every state a
  call of a public method leaves. \<open>unstarted\<close> says that no promise is stored yet.
\<close>

inductive reachable :: "regexp_constructor \<Rightarrow> engine \<Rightarrow> engine \<Rightarrow> bool"
  for rx :: regexp_constructor and s0 :: engine where
  constructed: "reachable rx s0 s0"
| called_getTotalCount: "reachable rx s0 s \<Longrightarrow> reachable rx s0 (snd (getTotalCount rx s))"
| called_getEdges: "reachable rx s0 s \<Longrightarrow> reachable rx s0 (snd (getEdges rx s))"
| called_getEndCursor: "reachable rx s0 s \<Longrightarrow> reachable rx s0 (snd (getEndCursor rx s))"
| called_hasNextPage: "reachable rx s0 s \<Longrightarrow> reachable rx s0 (snd (hasNextPage rx s))"

definition unstarted :: "engine \<Rightarrow> bool" where
  "unstarted s =
     (p_count s = None \<and> p_model s = None \<and> p_edge s = None \<and> p_cursor s = None
      \<and> p_nextPage s = None)"

text \<open>
  Two invariants of the stored promises. \<open>slots_agree\<close>: a stored end cursor belongs to
  the stored edges, and a stored \<open>hasNextPage\<close> outcome is the \<open>TypeError\<close> when the
  stored end cursor is \<open>null\<close>. \<open>unresolved a s\<close>: the instance is in native mode and
  \<open>pagination.after = a\<close> matches no document of its pipeline; \<open>not_found_slots a s\<close>:
  every promise stored under \<open>model\<close>, \<open>edge\<close>, \<open>cursor\<close> and \<open>nextPage\<close> is the
  rejection with CursorNotFound, and they are stored in this order.
\<close>

definition slots_agree :: "engine \<Rightarrow> bool" where
  "slots_agree s =
     ((case p_cursor s of
         None \<Rightarrow> True
       | Some c \<Rightarrow> (case p_edge s of None \<Rightarrow> False | Some e \<Rightarrow> c = end_cursor_of e))
      \<and> (case p_nextPage s of
            None \<Rightarrow> True
          | Some n \<Rightarrow>
              (case p_cursor s of
                 None \<Rightarrow> False
               | Some c \<Rightarrow> if c = Inr None then n = Inl TypeError else True)))"

definition not_found_slots :: "oid \<Rightarrow> engine \<Rightarrow> bool" where
  "not_found_slots a s =
     ((p_model s = None \<or> p_model s = Some (Inl (CursorNotFound a)))
      \<and> (p_edge s = None \<or> p_edge s = Some (Inl (CursorNotFound a)) \<and> p_model s \<noteq> None)
      \<and> (p_cursor s = None \<or> p_cursor s = Some (Inl (CursorNotFound a)) \<and> p_edge s \<noteq> None)
      \<and> (p_nextPage s = None
          \<or> p_nextPage s = Some (Inl (CursorNotFound a)) \<and> p_cursor s \<noteq> None))"

definition unresolved :: "oid \<Rightarrow> engine \<Rightarrow> bool" where
  "unresolved a s =
     (search s = [] \<and> after (pagination s) = Some a
      \<and> aggregate (Model s)
           (Match (Test ''_id'' (Eq (Oid a))) # cells (mem s) (aggregationPipeline s)) = Inr [])"

text \<open>
  The value of a string of hexadecimal digits, which reads an identifier back from its
  string form.
\<close>

definition hex_digit_value :: "char \<Rightarrow> nat" where
  "hex_digit_value c =
     (case map_of (zip ''0123456789abcdef'' [0..<16]) c of None \<Rightarrow> 0 | Some d \<Rightarrow> d)"

definition hex_value :: "string \<Rightarrow> nat" where
  "hex_value s = foldl (\<lambda>acc c. 16 * acc + hex_digit_value c) 0 s"

text \<open>
  The specification's tie-break policy, stated on the order in which the sort stage puts
  the documents (\<open>sort_rank\<close>): a key is strictly past the boundary when the sort puts it
  behind the boundary key, after it under an ascending sort and before it under a
  descending one; it is tied when the sort does not tell them apart. \<open>beyond_boundary\<close>
  is the specification's condition for a record behind the boundary record: strictly
  past the boundary on the sort key, or tied with it and of a strictly greater
  identifier.
\<close>

definition strictly_past :: "int \<Rightarrow> val option \<Rightarrow> val option \<Rightarrow> bool" where
  "strictly_past ord boundary x =
     (if ord = 1 then sort_rank boundary < sort_rank x else sort_rank x < sort_rank boundary)"

definition beyond_boundary :: "int \<Rightarrow> string \<Rightarrow> doc \<Rightarrow> doc \<Rightarrow> bool" where
  "beyond_boundary ord f boundary d =
     (strictly_past ord (getv boundary f) (getv d f)
      \<or> (sort_rank (getv d f) = sort_rank (getv boundary f)
          \<and> sort_rank (getv boundary ''_id'') < sort_rank (getv d ''_id'')))"


section \<open>The result filter\<close>

lemma filter_with_counting:
  assumes "first p = Some k"
  shows "0 \<le> c \<Longrightarrow> c \<le> k \<Longrightarrow>
         filter_with (filterResults_callback regex (Some p)) rs c =
         take (nat (k - c)) (filter (doc_matches regex) rs)"
proof (induction rs arbitrary: c)
  case Nil
  then show ?case by simp
next
  case (Cons r rs)
  show ?case
  proof (cases "c = k")
    case True
    with Cons.IH[of c] Cons.prems assms show ?thesis
      by (simp add: filterResults_callback_def)
  next
    case False
    with Cons.prems have lt: "c < k" by simp
    have s: "nat (k - c) = Suc (nat (k - (c + 1)))" using lt Cons.prems by simp
    show ?thesis
    proof (cases "doc_matches regex r")
      case True
      with Cons.IH[of "c + 1"] lt Cons.prems assms False s show ?thesis
        by (simp add: filterResults_callback_def doc_matches_def)
    next
      case nm: False
      with Cons.IH[of c] lt Cons.prems assms False show ?thesis
        by (simp add: filterResults_callback_def doc_matches_def)
    qed
  qed
qed

lemma filter_with_unbounded:
  assumes "first p = None" "0 \<le> c"
  shows "filter_with (filterResults_callback regex (Some p)) rs c =
         filter (doc_matches regex) rs"
  using assms(2)
proof (induction rs arbitrary: c)
  case Nil
  then show ?case by simp
next
  case (Cons r rs)
  from Cons.IH[of c] Cons.IH[of "c + 1"] Cons.prems assms(1) show ?case
    by (simp add: filterResults_callback_def doc_matches_def)
qed

lemma filter_with_skipping:
  assumes "after p = Some a" "first p \<noteq> Some (- 1)"
  shows "filter_with (filterResults_callback regex (Some p)) rs (- 1) =
         filter_with (filterResults_callback regex (Some p))
           (drop 1 (dropWhile (\<lambda>r. \<not> loose_equals_after (getv r ''_id'') a) rs)) 0"
proof (induction rs)
  case Nil
  then show ?case by simp
next
  case (Cons r rs)
  with assms show ?case
    by (simp add: filterResults_callback_def)
qed

lemma filter_with_no_pagination:
  "filter_with (filterResults_callback regex None) rs c = filter (doc_matches regex) rs"
  by (induction rs arbitrary: c) (simp_all add: filterResults_callback_def doc_matches_def)

lemma filterResults_error: "filterResults rx rs pat pg = Inl e \<Longrightarrow> e = SyntaxError"
  by (auto simp: filterResults_def split: option.splits)

text \<open>
  The string form of an identifier determines the identifier, so a document whose \<open>_id\<close>
  is an \<open>ObjectId\<close> equals \<open>after\<close> exactly when it is the identifier \<open>after\<close> stands for.
\<close>

lemma digit_value_digit: "n < 16 \<Longrightarrow> hex_digit_value (digit n) = n"
proof -
  have "\<forall>n\<in>set [0..<16]. hex_digit_value (digit n) = n" by code_simp
  then show "n < 16 \<Longrightarrow> hex_digit_value (digit n) = n" by simp
qed

lemma hex_value_snoc: "hex_value (s @ [c]) = 16 * hex_value s + hex_digit_value c"
  by (simp add: hex_value_def)

lemma hex_value_hex: "hex_value (hex n) = n"
proof (induction n rule: hex.induct)
  case (1 n)
  show ?case
  proof (cases "n < 16")
    case True
    then show ?thesis by (simp add: hex.simps[of n] hex_value_def digit_value_digit)
  next
    case False
    with 1 have "hex_value (hex (n div 16)) = n div 16" by simp
    with False show ?thesis
      by (simp add: hex.simps[of n] hex_value_snoc digit_value_digit)
  qed
qed

lemma hex_digit_value_0: "hex_digit_value CHR ''0'' = 0"
  by code_simp

lemma hex_value_zeros: "hex_value (replicate k CHR ''0'' @ s) = hex_value s"
proof -
  have "foldl (\<lambda>acc c. 16 * acc + hex_digit_value c) 0 (replicate k CHR ''0'') = 0"
    by (induction k) (simp_all add: hex_digit_value_0)
  then show ?thesis by (simp add: hex_value_def)
qed

lemma String_Oid_inject: "(String (Oid k) = String (Oid a)) = (k = a)"
proof
  assume "String (Oid k) = String (Oid a)"
  then have "hex_value (String (Oid k)) = hex_value (String (Oid a))" by simp
  then show "k = a" by (simp add: hex_value_zeros hex_value_hex)
qed simp

lemma loose_equals_after_Oid: "loose_equals_after (Some (Oid k)) a = (k = a)"
  by (simp add: String_Oid_inject del: String.simps)

text \<open>
  C4. With \<open>pagination.after\<close> set and \<open>pagination.first\<close> absent or not negative,
  \<open>filterResults\<close> compiles the pattern with the flag \<open>i\<close>, so that the match ignores
  letter case (a pattern that is no regular expression makes it throw the
  \<open>SyntaxError\<close>). It drops every document up to and including the first one whose \<open>_id\<close>
  equals \<open>after\<close> (under \<open>==\<close>), keeps of the documents behind it exactly those with a
  value that matches, and stops after \<open>first\<close> of them (it keeps all of them when
  \<open>first\<close> is absent). When no document has an \<open>_id\<close> equal to \<open>after\<close>, the result is
  the empty sequence.
\<close>

theorem filterResults_after:
  assumes "after p = Some a"
    and "case first p of None \<Rightarrow> True | Some k \<Rightarrow> 0 \<le> k"
  shows "filterResults rx rs pat (Some p) =
           (case rx pat ''i'' of
              None \<Rightarrow> Inl SyntaxError
            | Some regex \<Rightarrow>
                Inr (case first p of
                       None \<Rightarrow>
                         filter (doc_matches regex)
                           (drop 1 (dropWhile
                                      (\<lambda>r. \<not> loose_equals_after (getv r ''_id'') a) rs))
                     | Some k \<Rightarrow>
                         take (nat k)
                           (filter (doc_matches regex)
                              (drop 1 (dropWhile
                                         (\<lambda>r. \<not> loose_equals_after (getv r ''_id'') a) rs)))))
         \<and> (if list_ex (\<lambda>r. loose_equals_after (getv r ''_id'') a) rs then True
            else filterResults rx rs pat (Some p) =
                   (case rx pat ''i'' of None \<Rightarrow> Inl SyntaxError | Some regex \<Rightarrow> Inr []))"
proof -
  define behind where
    "behind = drop 1 (dropWhile (\<lambda>r. \<not> loose_equals_after (getv r ''_id'') a) rs)"
  have ne: "first p \<noteq> Some (- 1)" using assms(2) by (auto split: option.splits)
  have eq: "filterResults rx rs pat (Some p) =
           (case rx pat ''i'' of
              None \<Rightarrow> Inl SyntaxError
            | Some regex \<Rightarrow>
                Inr (case first p of
                       None \<Rightarrow> filter (doc_matches regex) behind
                     | Some k \<Rightarrow> take (nat k) (filter (doc_matches regex) behind)))"
  proof (cases "rx pat ''i''")
    case None
    then show ?thesis by (simp add: filterResults_def)
  next
    case (Some regex)
    show ?thesis
    proof (cases "first p")
      case None
      then show ?thesis
        using assms(1) Some filter_with_skipping[OF assms(1) ne, of regex rs]
          filter_with_unbounded[OF None, of 0 regex]
        by (simp add: filterResults_def behind_def)
    next
      case k: (Some k)
      with assms(2) have "0 \<le> k" by simp
      then show ?thesis
        using assms(1) Some k filter_with_skipping[OF assms(1) ne, of regex rs]
          filter_with_counting[OF k, of 0 regex]
        by (simp add: filterResults_def behind_def)
    qed
  qed
  show ?thesis
  proof (cases "list_ex (\<lambda>r. loose_equals_after (getv r ''_id'') a) rs")
    case True
    with eq show ?thesis unfolding behind_def by simp
  next
    case False
    then have dw: "dropWhile (\<lambda>r. \<not> loose_equals_after (getv r ''_id'') a) rs = []"
      by (simp add: list_ex_iff)
    have "behind = []" unfolding behind_def dw by simp
    then have "filterResults rx rs pat (Some p) =
                 (case rx pat ''i'' of None \<Rightarrow> Inl SyntaxError | Some regex \<Rightarrow> Inr [])"
      unfolding eq by (simp split: option.splits)
    with eq False show ?thesis unfolding behind_def by simp
  qed
qed

theorem filterResults_after_witness:
  "filterResults regex_literal
     [[(''_id'', Oid 1), (''name'', Str ''Bar'')], [(''_id'', Oid 2), (''name'', Str ''foo'')],
      [(''_id'', Oid 3), (''name'', Str ''bAz'')], [(''_id'', Oid 4), (''name'', Str ''xyz'')],
      [(''_id'', Oid 5), (''name'', Str ''ab'')], [(''_id'', Oid 6), (''name'', Str ''abc'')]]
     ''ba'' (Some \<lparr>first = Some 1, after = Some 2\<rparr>)
   = Inr [[(''_id'', Oid 3), (''name'', Str ''bAz'')]]
   \<and> filterResults regex_literal
     [[(''_id'', Oid 1), (''name'', Str ''Bar'')], [(''_id'', Oid 3), (''name'', Str ''bAz'')]]
     ''ba'' (Some \<lparr>first = Some 1, after = Some 2\<rparr>) = Inr []"
proof -
  define p where "p = \<lparr>first = Some (1::int), after = Some (2::nat)\<rparr>"
  define rs1 where "rs1 =
     [[(''_id'', Oid 1), (''name'', Str ''Bar'')], [(''_id'', Oid 2), (''name'', Str ''foo'')],
      [(''_id'', Oid 3), (''name'', Str ''bAz'')], [(''_id'', Oid 4), (''name'', Str ''xyz'')],
      [(''_id'', Oid 5), (''name'', Str ''ab'')], [(''_id'', Oid 6), (''name'', Str ''abc'')]]"
  define rs2 where "rs2 =
     [[(''_id'', Oid 1), (''name'', Str ''Bar'')], [(''_id'', Oid 3), (''name'', Str ''bAz'')]]"
  have a: "after p = Some 2" by (simp add: p_def)
  have f: "first p = Some 1" by (simp add: p_def)
  have b: "case first p of None \<Rightarrow> True | Some k \<Rightarrow> 0 \<le> k" by (simp add: f)
  have c: "(case regex_literal ''ba'' ''i'' of
              None \<Rightarrow> Inl SyntaxError
            | Some regex \<Rightarrow>
                Inr (take (nat 1)
                       (filter (doc_matches regex)
                          (drop 1 (dropWhile
                                     (\<lambda>r. \<not> loose_equals_after (getv r ''_id'') 2) rs1)))))
           = Inr [[(''_id'', Oid 3), (''name'', Str ''bAz'')]]"
    unfolding rs1_def by code_simp
  have d: "list_ex (\<lambda>r. loose_equals_after (getv r ''_id'') 2) rs2 = False"
    unfolding rs2_def by code_simp
  have g: "(case regex_literal ''ba'' ''i'' of None \<Rightarrow> Inl SyntaxError | Some regex \<Rightarrow> Inr [])
           = (Inr [] :: error + doc list)"
    by (simp add: regex_literal_def)
  have e1: "filterResults regex_literal rs1 ''ba'' (Some p) =
              Inr [[(''_id'', Oid 3), (''name'', Str ''bAz'')]]"
    using conjunct1[OF filterResults_after[OF a b, where rx = regex_literal and pat = "''ba''"
          and rs = rs1]]
    by (simp only: f option.case c)
  have e2: "filterResults regex_literal rs2 ''ba'' (Some p) = Inr []"
    using conjunct2[OF filterResults_after[OF a b, where rx = regex_literal and pat = "''ba''"
          and rs = rs2]]
    by (simp only: d if_False g)
  show ?thesis using e1 e2 unfolding p_def rs1_def rs2_def by (rule conjI)
qed

text \<open>
  The comparison with \<open>after\<close> is \<open>==\<close>: a document whose \<open>_id\<close> is the string
  \<open>000000000000000000000002\<close> or the number 2 ends the skip for \<open>after\<close> = 2 as the
  \<open>ObjectId\<close> does, the string \<open>2\<close> does not. Without the flag \<open>i\<close>, as in the second
  variant of the class, the pattern \<open>ba\<close> does not match \<open>Bar\<close>.
\<close>

lemma filterResults_loose_equality:
  "filterResults regex_literal
     [[(''_id'', Str ''000000000000000000000002''), (''name'', Str ''foo'')],
      [(''_id'', Str ''b''), (''name'', Str ''Bar'')]]
     ''ba'' (Some \<lparr>first = Some 1, after = Some 2\<rparr>)
   = Inr [[(''_id'', Str ''b''), (''name'', Str ''Bar'')]]
   \<and> filterResults regex_literal
     [[(''_id'', Num 2), (''name'', Str ''foo'')], [(''_id'', Num 3), (''name'', Str ''Bar'')]]
     ''ba'' (Some \<lparr>first = Some 1, after = Some 2\<rparr>)
   = Inr [[(''_id'', Num 3), (''name'', Str ''Bar'')]]
   \<and> filterResults regex_literal
     [[(''_id'', Str ''2''), (''name'', Str ''foo'')], [(''_id'', Str ''b''), (''name'', Str ''Bar'')]]
     ''ba'' (Some \<lparr>first = Some 1, after = Some 2\<rparr>)
   = Inr []
   \<and> filterResults_part_000 regex_literal
     [[(''_id'', Oid 1), (''name'', Str ''Bar'')], [(''_id'', Oid 3), (''name'', Str ''bar'')]]
     ''ba''
   = Inr [[(''_id'', Oid 3), (''name'', Str ''bar'')]]"
  by code_simp


section \<open>What the methods keep\<close>

lemma frame_refl: "frame m m"
  by (simp add: frame_def)

lemma frame_trans: "frame m1 m2 \<Longrightarrow> frame m2 m3 \<Longrightarrow> frame m1 m3"
  by (auto simp: frame_def)

lemma frame_slice: "frame m (snd (slice a m))"
  by (simp add: frame_def slice_def)

lemma frame_array_filter: "frame m (snd (array_filter P a m))"
  by (simp add: frame_def array_filter_def)

lemma frame_push: "frame m0 m \<Longrightarrow> top m0 \<le> a \<Longrightarrow> frame m0 (push a st m)"
  by (auto simp: frame_def push_def)

lemma frame_unshift: "frame m0 m \<Longrightarrow> top m0 \<le> a \<Longrightarrow> frame m0 (unshift a st m)"
  by (auto simp: frame_def unshift_def)

lemma same_request_refl: "same_request s s"
  by (simp add: same_request_def frame_refl)

lemma same_request_trans: "same_request s1 s2 \<Longrightarrow> same_request s2 s3 \<Longrightarrow> same_request s1 s3"
  by (auto simp: same_request_def intro: frame_trans)

lemma findCursorModel_keeps:
  "same_request s (snd (findCursorModel cid s))
   \<and> p_count (snd (findCursorModel cid s)) = p_count s
   \<and> p_edge (snd (findCursorModel cid s)) = p_edge s
   \<and> p_cursor (snd (findCursorModel cid s)) = p_cursor s
   \<and> p_nextPage (snd (findCursorModel cid s)) = p_nextPage s"
  by (auto simp: findCursorModel_def findCursorModel_run_def memo_def await_def
      Model_aggregate_def slice_def unshift_def return_def throw_def frame_def same_request_def
      split: option.splits sum.splits list.splits prod.splits)

lemma aggregationAddPagination_keeps:
  "same_request s (snd (aggregationAddPagination p aft s))
   \<and> p_count (snd (aggregationAddPagination p aft s)) = p_count s
   \<and> p_edge (snd (aggregationAddPagination p aft s)) = p_edge s
   \<and> p_cursor (snd (aggregationAddPagination p aft s)) = p_cursor s
   \<and> p_nextPage (snd (aggregationAddPagination p aft s)) = p_nextPage s"
  by (auto simp: aggregationAddPagination_def findCursorModel_def findCursorModel_run_def
      memo_def await_def Model_aggregate_def slice_def unshift_def push_def return_def throw_def
      frame_def same_request_def Let_def
      split: option.splits sum.splits list.splits prod.splits)

lemma getTotalCount_keeps:
  "same_request s (snd (getTotalCount rx s))
   \<and> p_model (snd (getTotalCount rx s)) = p_model s
   \<and> p_edge (snd (getTotalCount rx s)) = p_edge s
   \<and> p_cursor (snd (getTotalCount rx s)) = p_cursor s
   \<and> p_nextPage (snd (getTotalCount rx s)) = p_nextPage s"
  by (auto simp: getTotalCount_def getTotalCount_run_def memo_def await_def
      Model_aggregate_def slice_def push_def array_filter_def return_def throw_def frame_def
      same_request_def
      split: option.splits sum.splits list.splits prod.splits)

lemma getEdges_keeps:
  "same_request s (snd (getEdges rx s))
   \<and> p_count (snd (getEdges rx s)) = p_count s
   \<and> p_cursor (snd (getEdges rx s)) = p_cursor s
   \<and> p_nextPage (snd (getEdges rx s)) = p_nextPage s
   \<and> p_edge (snd (getEdges rx s)) = Some (fst (getEdges rx s))"
proof (cases "p_edge s")
  case (Some r)
  then show ?thesis by (simp add: getEdges_def memo_def same_request_refl)
next
  case None
  show ?thesis
  proof (cases "search s = []")
    case True
    obtain r s1 where
      a: "aggregationAddPagination (aggregationPipeline s) (after (pagination s)) s = (r, s1)"
      by (cases "aggregationAddPagination (aggregationPipeline s) (after (pagination s)) s")
    from aggregationAddPagination_keeps[of s "aggregationPipeline s" "after (pagination s)"] a
    have k: "same_request s s1" "p_count s1 = p_count s" "p_cursor s1 = p_cursor s"
      "p_nextPage s1 = p_nextPage s" by simp_all
    show ?thesis
      using None True a k
      by (cases r)
        (auto simp: getEdges_def getEdges_run_def memo_def await_def return_def
          Model_aggregate_def same_request_def split: sum.splits prod.splits)
  next
    case False
    with None show ?thesis
      by (auto simp: getEdges_def getEdges_run_def memo_def await_def return_def throw_def
          Model_aggregate_def same_request_def frame_refl split: sum.splits prod.splits)
  qed
qed

lemma getEndCursor_run_eq:
  "getEndCursor_run rx s = (end_cursor_of (fst (getEdges rx s)), snd (getEdges rx s))"
  by (cases "getEdges rx s")
    (auto simp: getEndCursor_run_def await_def return_def end_cursor_of_def split: sum.splits)

lemma getEndCursor_keeps:
  "same_request s (snd (getEndCursor rx s))
   \<and> p_count (snd (getEndCursor rx s)) = p_count s
   \<and> p_nextPage (snd (getEndCursor rx s)) = p_nextPage s
   \<and> p_cursor (snd (getEndCursor rx s)) = Some (fst (getEndCursor rx s))
   \<and> (p_cursor s = None \<longrightarrow>
        p_edge (snd (getEndCursor rx s)) = Some (fst (getEdges rx s))
        \<and> fst (getEndCursor rx s) = end_cursor_of (fst (getEdges rx s)))
   \<and> (p_cursor s \<noteq> None \<longrightarrow> snd (getEndCursor rx s) = s)"
  using getEdges_keeps[of s rx]
  by (cases "p_cursor s")
    (auto simp: getEndCursor_def memo_def getEndCursor_run_eq same_request_def frame_refl)

lemma hasNextPage_run_keeps:
  "same_request s (snd (hasNextPage_run rx s))
   \<and> p_count (snd (hasNextPage_run rx s)) = p_count s
   \<and> p_nextPage (snd (hasNextPage_run rx s)) = p_nextPage s
   \<and> p_cursor (snd (hasNextPage_run rx s)) = p_cursor (snd (getEndCursor rx s))
   \<and> p_edge (snd (hasNextPage_run rx s)) = p_edge (snd (getEndCursor rx s))
   \<and> (fst (getEndCursor rx s) = Inr None \<longrightarrow> fst (hasNextPage_run rx s) = Inl TypeError)"
proof -
  obtain r s1 where a: "getEndCursor rx s = (r, s1)" by (cases "getEndCursor rx s")
  from getEndCursor_keeps[of s rx] a
  have k: "same_request s s1" "p_count s1 = p_count s" "p_nextPage s1 = p_nextPage s"
    by simp_all
  show ?thesis
  proof (cases r)
    case (Inl e)
    with a k show ?thesis by (simp add: hasNextPage_run_def await_def)
  next
    case (Inr c)
    show ?thesis
    proof (cases "id_of c")
      case (Inl e)
      with a k Inr show ?thesis
        by (cases c) (auto simp: hasNextPage_run_def await_def throw_def)
    next
      case aft: (Inr aft)
      then have cn: "c \<noteq> None" by (cases c) auto
      obtain r2 s2 where
        b: "aggregationAddPagination (aggregationPipeline s1) aft s1 = (r2, s2)"
        by (cases "aggregationAddPagination (aggregationPipeline s1) aft s1")
      from aggregationAddPagination_keeps[of s1 "aggregationPipeline s1" aft] b
      have g: "same_request s1 s2" "p_count s2 = p_count s1" "p_edge s2 = p_edge s1"
        "p_cursor s2 = p_cursor s1" "p_nextPage s2 = p_nextPage s1"
        by simp_all
      from same_request_trans[OF k(1) g(1)] have h: "same_request s s2" .
      show ?thesis
        using a Inr aft b k g h cn
        by (cases r2)
          (auto simp: hasNextPage_run_def await_def return_def
            Model_aggregate_def same_request_def split: sum.splits)
    qed
  qed
qed

lemma hasNextPage_keeps:
  "same_request s (snd (hasNextPage rx s))
   \<and> p_count (snd (hasNextPage rx s)) = p_count s
   \<and> p_nextPage (snd (hasNextPage rx s)) = Some (fst (hasNextPage rx s))
   \<and> (p_nextPage s = None \<longrightarrow>
        p_cursor (snd (hasNextPage rx s)) = p_cursor (snd (getEndCursor rx s))
        \<and> p_edge (snd (hasNextPage rx s)) = p_edge (snd (getEndCursor rx s))
        \<and> (fst (getEndCursor rx s) = Inr None \<longrightarrow> fst (hasNextPage rx s) = Inl TypeError))
   \<and> (p_nextPage s \<noteq> None \<longrightarrow> snd (hasNextPage rx s) = s)"
  using hasNextPage_run_keeps[of s rx]
  by (cases "p_nextPage s"; cases "hasNextPage_run rx s")
    (auto simp: hasNextPage_def memo_def same_request_def frame_refl)

lemma unstarted_constructor: "unstarted (constructor m0 db base pg so fs se)"
  by (simp add: unstarted_def constructor_def Let_def split: prod.splits)

lemma getEdges_memo: "p_edge s = Some e \<Longrightarrow> getEdges rx s = (e, s)"
  by (simp add: getEdges_def memo_def)

lemma slots_agree_getEndCursor:
  assumes "slots_agree s"
  shows "slots_agree (snd (getEndCursor rx s))"
proof (cases "p_cursor s")
  case (Some c)
  with assms getEndCursor_keeps[of s rx] show ?thesis by simp
next
  case None
  with assms have n: "p_nextPage s = None"
    by (auto simp: slots_agree_def split: option.splits)
  from None n getEndCursor_keeps[of s rx] show ?thesis
    by (simp add: slots_agree_def)
qed

lemma reachable_slots_agree:
  assumes "unstarted s0" and "reachable rx s0 s"
  shows "slots_agree s"
  using assms(2)
proof (induction rule: reachable.induct)
  case constructed
  from assms(1) show ?case by (simp add: unstarted_def slots_agree_def)
next
  case (called_getTotalCount s)
  with getTotalCount_keeps[of s rx] show ?case
    by (auto simp: slots_agree_def split: option.splits)
next
  case (called_getEdges s)
  show ?case
  proof (cases "p_edge s")
    case None
    with called_getEdges.IH have "p_cursor s = None" "p_nextPage s = None"
      by (auto simp: slots_agree_def split: option.splits)
    with getEdges_keeps[of s rx] show ?thesis by (simp add: slots_agree_def)
  next
    case (Some e)
    with called_getEdges.IH show ?thesis by (simp add: getEdges_memo)
  qed
next
  case (called_getEndCursor s)
  then show ?case by (simp add: slots_agree_getEndCursor)
next
  case (called_hasNextPage s)
  show ?case
  proof (cases "p_nextPage s")
    case (Some n)
    with called_hasNextPage.IH hasNextPage_keeps[of s rx] show ?thesis by simp
  next
    case None
    from slots_agree_getEndCursor[OF called_hasNextPage.IH, of rx]
    have a: "slots_agree (snd (getEndCursor rx s))" .
    from None hasNextPage_keeps[of s rx] getEndCursor_keeps[of s rx] a show ?thesis
      by (auto simp: slots_agree_def split: option.splits)
  qed
qed

lemma reachable_same_request:
  assumes "reachable rx s0 s"
  shows "same_request s0 s"
  using assms
proof (induction rule: reachable.induct)
  case constructed
  show ?case by (rule same_request_refl)
next
  case (called_getTotalCount s)
  with getTotalCount_keeps[of s rx] show ?case by (blast intro: same_request_trans)
next
  case (called_getEdges s)
  with getEdges_keeps[of s rx] show ?case by (blast intro: same_request_trans)
next
  case (called_getEndCursor s)
  with getEndCursor_keeps[of s rx] show ?case by (blast intro: same_request_trans)
next
  case (called_hasNextPage s)
  with hasNextPage_keeps[of s rx] show ?case by (blast intro: same_request_trans)
qed


section \<open>Memoization\<close>










section \<open>Copy on extend\<close>

text \<open>
  In \<open>src/pagination.js\<close> every method extends a copy: no call changes an array that
  existed before it, and the instance keeps its pipeline. The constructor copies the
  caller's array and builds the pipeline (base stages, filters, sort) in the copy.
\<close>

lemma top_push: "top (push a st m) = top m"
  by (simp add: push_def)

lemma fold_push_frame:
  "frame m0 m \<Longrightarrow>
   frame m0 (fold (\<lambda>f. push (top m0) (g f)) fs m)
   \<and> top (fold (\<lambda>f. push (top m0) (g f)) fs m) = top m"
  by (induction fs arbitrary: m) (simp_all add: frame_push top_push)

lemma constructor_frame:
  "frame m0 (mem (constructor m0 db base pg so fs se))
   \<and> aggregationPipeline (constructor m0 db base pg so fs se) = top m0
   \<and> top m0 < top (mem (constructor m0 db base pg so fs se))"
proof -
  define m1 where "m1 = snd (slice base m0)"
  define m2 where "m2 = fold (\<lambda>f. push (top m0) (Match (Test (ffield f) (In (fvalue f))))) fs m1"
  define m3 where "m3 = (if field so \<noteq> [] \<and> order so \<noteq> 0
                         then push (top m0) (Sort (field so) (order so)) m2 else m2)"
  have s: "slice base m0 = (top m0, m1)" by (simp add: m1_def slice_def)
  have f1: "frame m0 m1" unfolding m1_def by (rule frame_slice)
  have t1: "top m1 = Suc (top m0)" by (simp add: m1_def slice_def)
  from fold_push_frame[OF f1, of "\<lambda>f. Match (Test (ffield f) (In (fvalue f)))" fs]
  have f2: "frame m0 m2" and t2: "top m2 = top m1" by (simp_all add: m2_def)
  have f3: "frame m0 m3" and t3: "top m3 = top m2"
    using f2 by (simp_all add: m3_def frame_push top_push)
  have c: "mem (constructor m0 db base pg so fs se) = m3"
    "aggregationPipeline (constructor m0 db base pg so fs se) = top m0"
    by (simp_all add: constructor_def s m2_def m3_def Let_def)
  show ?thesis using c f3 t1 t2 t3 by simp
qed

lemma fold_push_cells:
  "cells (fold (\<lambda>f. push a (g f)) fs m) a = cells m a @ map g fs"
  by (induction fs arbitrary: m) (simp_all add: push_def)

lemma constructor_copies:
  assumes "base < top m0"
  shows "cells (mem (constructor m0 db base pg so fs se)) base = cells m0 base
       \<and> aggregationPipeline (constructor m0 db base pg so fs se) = top m0
       \<and> cells (mem (constructor m0 db base pg so fs se)) (top m0) =
           cells m0 base @ map (\<lambda>f. Match (Test (ffield f) (In (fvalue f)))) fs @
           (if field so \<noteq> [] \<and> order so \<noteq> 0 then [Sort (field so) (order so)] else [])"
proof -
  have c: "cells (mem (constructor m0 db base pg so fs se)) (top m0) =
           cells m0 base @ map (\<lambda>f. Match (Test (ffield f) (In (fvalue f)))) fs @
           (if field so \<noteq> [] \<and> order so \<noteq> 0 then [Sort (field so) (order so)] else [])"
    by (simp add: constructor_def slice_def Let_def fold_push_cells push_def)
  from constructor_frame[of m0 db base pg so fs se] assms c show ?thesis
    by (simp add: frame_def)
qed

lemma public_operations_frame:
  assumes "a < top (mem s)"
  shows "cells (mem (snd (getTotalCount rx s))) a = cells (mem s) a
       \<and> cells (mem (snd (getEdges rx s))) a = cells (mem s) a
       \<and> cells (mem (snd (getEndCursor rx s))) a = cells (mem s) a
       \<and> cells (mem (snd (hasNextPage rx s))) a = cells (mem s) a
       \<and> aggregationPipeline (snd (getTotalCount rx s)) = aggregationPipeline s
       \<and> aggregationPipeline (snd (getEdges rx s)) = aggregationPipeline s
       \<and> aggregationPipeline (snd (getEndCursor rx s)) = aggregationPipeline s
       \<and> aggregationPipeline (snd (hasNextPage rx s)) = aggregationPipeline s"
  using assms getTotalCount_keeps[of s rx] getEdges_keeps[of s rx] getEndCursor_keeps[of s rx]
    hasNextPage_keeps[of s rx]
  by (simp add: same_request_def frame_def)

text \<open>
  C8. The constructor of the second variant changes the caller's array: constructed on an
  empty base pipeline with one filter and a sort, it leaves the two stages in the
  caller's array (address 0), which is also the instance's pipeline. The constructor of
  \<open>src/pagination.js\<close> leaves the caller's array empty and builds its pipeline in a copy.
\<close>

theorem part_000_constructor_mutates_input:
  "cells (caller_mem []) 0 = []
   \<and> cells (mem (constructor_part_000 (caller_mem []) db3 0 \<lparr>first = None, after = None\<rparr>
        \<lparr>field = ''score'', order = 1\<rparr> [\<lparr>ffield0 = ''score'', fvalue0 = Num 5\<rparr>] [])) 0 =
      [Match (Test ''score'' (Eq (Num 5))), Sort ''score'' 1]
   \<and> aggregationPipeline (constructor_part_000 (caller_mem []) db3 0
        \<lparr>first = None, after = None\<rparr> \<lparr>field = ''score'', order = 1\<rparr>
        [\<lparr>ffield0 = ''score'', fvalue0 = Num 5\<rparr>] []) = 0
   \<and> cells (mem (constructor (caller_mem []) db3 0 \<lparr>first = None, after = None\<rparr>
        \<lparr>field = ''score'', order = 1\<rparr> [\<lparr>ffield = ''score'', fvalue = [Num 5]\<rparr>] [])) 0 = []
   \<and> aggregationPipeline (constructor (caller_mem []) db3 0
        \<lparr>first = None, after = None\<rparr> \<lparr>field = ''score'', order = 1\<rparr>
        [\<lparr>ffield = ''score'', fvalue = [Num 5]\<rparr>] []) = 1"
  by code_simp


section \<open>hasNextPage on an empty page\<close>

text \<open>
  C10. In every state of an instance in which \<open>getEdges\<close> resolves to the empty sequence,
  \<open>getEndCursor\<close> resolves to \<open>null\<close> and \<open>hasNextPage\<close> does not resolve to \<open>false\<close>:
  it fails with the \<open>TypeError\<close> of reading \<open>_id\<close> of \<open>null\<close>, the failure is stored under
  \<open>promises.nextPage\<close>, and the next call fails the same way.
\<close>

theorem hasNextPage_empty_page:
  assumes "reachable rx (constructor m0 db base pg so fs se) s"
    and "fst (getEdges rx s) = Inr []"
  shows "fst (getEndCursor rx s) = Inr None
       \<and> fst (hasNextPage rx s) = Inl TypeError
       \<and> p_nextPage (snd (hasNextPage rx s)) = Some (Inl TypeError)
       \<and> fst (hasNextPage rx (snd (hasNextPage rx s))) = Inl TypeError"
proof -
  from reachable_slots_agree[OF unstarted_constructor assms(1)] have a: "slots_agree s" .
  have c: "fst (getEndCursor rx s) = Inr None"
  proof (cases "p_cursor s")
    case None
    with getEndCursor_keeps[of s rx] assms(2) show ?thesis
      by (simp add: end_cursor_of_def)
  next
    case (Some c)
    with a obtain e where e: "p_edge s = Some e" "c = end_cursor_of e"
      by (auto simp: slots_agree_def split: option.splits)
    with assms(2) have "c = Inr None" by (simp add: getEdges_memo end_cursor_of_def)
    with Some show ?thesis by (simp add: getEndCursor_def memo_def)
  qed
  have h: "fst (hasNextPage rx s) = Inl TypeError"
  proof (cases "p_nextPage s")
    case None
    with hasNextPage_keeps[of s rx] c show ?thesis by simp
  next
    case (Some n)
    with a obtain c' where c': "p_cursor s = Some c'" "c' = Inr None \<longrightarrow> n = Inl TypeError"
      by (auto simp: slots_agree_def split: option.splits if_splits)
    from c'(1) c have "c' = Inr None" by (simp add: getEndCursor_def memo_def)
    with c' Some show ?thesis by (simp add: hasNextPage_def memo_def)
  qed
  from hasNextPage_keeps[of s rx] h
  have m: "p_nextPage (snd (hasNextPage rx s)) = Some (Inl TypeError)" by simp
  then have "fst (hasNextPage rx (snd (hasNextPage rx s))) = Inl TypeError"
    by (simp add: hasNextPage_def memo_def)
  with c h m show ?thesis by simp
qed

theorem hasNextPage_empty_page_witness:
  "fst (getEdges regex_literal
          (snd (getTotalCount regex_literal
             (constructor (caller_mem []) [] 0 \<lparr>first = Some 10, after = None\<rparr>
               \<lparr>field = [], order = 0\<rparr> [] [])))) = Inr []
   \<and> fst (hasNextPage regex_literal
          (snd (getTotalCount regex_literal
             (constructor (caller_mem []) [] 0 \<lparr>first = Some 10, after = None\<rparr>
               \<lparr>field = [], order = 0\<rparr> [] [])))) = Inl TypeError"
proof -
  define s0 where "s0 = constructor (caller_mem []) [] 0 \<lparr>first = Some 10, after = None\<rparr>
             \<lparr>field = [], order = 0\<rparr> [] []"
  define s where "s = snd (getTotalCount regex_literal s0)"
  have r: "reachable regex_literal s0 s"
    unfolding s_def by (rule called_getTotalCount[OF constructed])
  have c: "fst (getEdges regex_literal s) = Inr []" unfolding s_def s0_def by code_simp
  have d: "fst (hasNextPage regex_literal s) = Inl TypeError"
    using hasNextPage_empty_page[OF r[unfolded s0_def] c] by (rule conjunct1[OF conjunct2])
  show ?thesis using c d unfolding s_def s0_def by (rule conjI)
qed


section \<open>Cursor resolution\<close>

lemma aggregate_error: "aggregate ds p = Inl e \<Longrightarrow> e = StoreError"
proof (induction p arbitrary: ds)
  case Nil
  then show ?case by simp
next
  case (Cons st p)
  then show ?case
    by (cases st) (auto split: sum.splits if_splits)
qed

text \<open>One run of \<open>findCursorModel\<close> on a state without a memoized cursor document.\<close>

lemma findCursorModel_fresh:
  assumes "p_model s = None"
  shows "findCursorModel a s =
     (let q = Match (Test ''_id'' (Eq (Oid a))) # cells (mem s) (aggregationPipeline s);
          r = (case aggregate (Model s) q of
                 Inl e \<Rightarrow> Inl e
               | Inr [] \<Rightarrow> Inl (CursorNotFound a)
               | Inr (d # ds) \<Rightarrow> Inr d)
      in (r, s\<lparr>mem := unshift (top (mem s)) (Match (Test ''_id'' (Eq (Oid a))))
                         (snd (slice (aggregationPipeline s) (mem s))),
               calls := calls s @ [q], p_model := Some r\<rparr>))"
  using assms
  by (simp add: findCursorModel_def findCursorModel_run_def memo_def await_def
      Model_aggregate_def slice_def unshift_def return_def throw_def Let_def
      split: sum.splits list.splits)

lemma getTotalCount_no_cursor_error:
  assumes "p_count s = None"
  shows "fst (getTotalCount rx s) \<noteq> Inl (CursorNotFound b)"
  using assms
  by (auto simp: getTotalCount_def getTotalCount_run_def memo_def await_def Model_aggregate_def
      slice_def push_def array_filter_def return_def throw_def
      split: prod.splits sum.splits if_splits dest: aggregate_error filterResults_error)

lemma reachable_count_not_cursor_error:
  assumes "unstarted s0" and "reachable rx s0 s"
  shows "p_count s \<noteq> Some (Inl (CursorNotFound b))"
  using assms(2)
proof (induction rule: reachable.induct)
  case constructed
  from assms(1) show ?case by (simp add: unstarted_def)
next
  case (called_getTotalCount s)
  show ?case
  proof (cases "p_count s")
    case None
    from getTotalCount_no_cursor_error[OF None, of rx b] show ?thesis
      using None
      by (cases "getTotalCount_run rx s") (auto simp: getTotalCount_def memo_def)
  next
    case (Some r)
    with called_getTotalCount.IH show ?thesis by (simp add: getTotalCount_def memo_def)
  qed
next
  case (called_getEdges s)
  with getEdges_keeps[of s rx] show ?case by simp
next
  case (called_getEndCursor s)
  with getEndCursor_keeps[of s rx] show ?case by simp
next
  case (called_hasNextPage s)
  with hasNextPage_keeps[of s rx] show ?case by simp
qed

lemma getEdges_not_found_step:
  assumes "search s = []" and "after (pagination s) = Some a"
    and "aggregate (Model s)
           (Match (Test ''_id'' (Eq (Oid a))) # cells (mem s) (aggregationPipeline s)) = Inr []"
    and "p_edge s = None"
    and "p_model s = None \<or> p_model s = Some (Inl (CursorNotFound a))"
  shows "fst (getEdges rx s) = Inl (CursorNotFound a)
       \<and> p_model (snd (getEdges rx s)) = Some (Inl (CursorNotFound a))
       \<and> calls (snd (getEdges rx s)) =
           (if p_model s = None
            then calls s @ [Match (Test ''_id'' (Eq (Oid a))) # cells (mem s) (aggregationPipeline s)]
            else calls s)"
  using assms
  by (auto simp: getEdges_def getEdges_run_def memo_def await_def aggregationAddPagination_def
      findCursorModel_def findCursorModel_run_def
      Model_aggregate_def slice_def unshift_def return_def throw_def)

lemma unresolved_same_request:
  assumes "same_request s s'" and "aggregationPipeline s < top (mem s)" and "unresolved a s"
  shows "unresolved a s'"
  using assms by (auto simp: unresolved_def same_request_def frame_def)

lemma getEndCursor_unset:
  assumes "p_cursor s = None"
  shows "getEndCursor rx s =
           (end_cursor_of (fst (getEdges rx s)),
            (snd (getEdges rx s))\<lparr>p_cursor := Some (end_cursor_of (fst (getEdges rx s)))\<rparr>)"
  using assms by (simp add: getEndCursor_def memo_def getEndCursor_run_eq)

lemma hasNextPage_error:
  assumes "p_nextPage s = None" and "fst (getEndCursor rx s) = Inl e"
  shows "hasNextPage rx s =
           (Inl e, (snd (getEndCursor rx s))\<lparr>p_nextPage := Some (Inl e)\<rparr>)"
  using assms
  by (cases "getEndCursor rx s")
    (simp add: hasNextPage_def hasNextPage_run_def memo_def await_def)

lemma not_found_getEdges:
  assumes "unresolved a s" and "not_found_slots a s"
  shows "fst (getEdges rx s) = Inl (CursorNotFound a)
       \<and> not_found_slots a (snd (getEdges rx s))
       \<and> p_model (snd (getEdges rx s)) \<noteq> None
       \<and> calls (snd (getEdges rx s)) =
           (if p_model s = None
            then calls s @ [Match (Test ''_id'' (Eq (Oid a))) # cells (mem s) (aggregationPipeline s)]
            else calls s)"
proof (cases "p_edge s")
  case (Some e)
  with assms(2) show ?thesis by (auto simp: getEdges_memo not_found_slots_def)
next
  case None
  from assms(1) have u: "search s = []" "after (pagination s) = Some a"
    "aggregate (Model s)
       (Match (Test ''_id'' (Eq (Oid a))) # cells (mem s) (aggregationPipeline s)) = Inr []"
    by (simp_all add: unresolved_def)
  from assms(2) have m: "p_model s = None \<or> p_model s = Some (Inl (CursorNotFound a))"
    and c: "p_cursor s = None" "p_nextPage s = None"
    using None by (auto simp: not_found_slots_def)
  from getEdges_not_found_step[OF u None m, of rx] getEdges_keeps[of s rx] c
  show ?thesis by (simp add: not_found_slots_def)
qed

lemma not_found_getEndCursor:
  assumes "unresolved a s" and "not_found_slots a s"
  shows "fst (getEndCursor rx s) = Inl (CursorNotFound a)
       \<and> not_found_slots a (snd (getEndCursor rx s))
       \<and> p_model (snd (getEndCursor rx s)) \<noteq> None
       \<and> calls (snd (getEndCursor rx s)) =
           (if p_model s = None
            then calls s @ [Match (Test ''_id'' (Eq (Oid a))) # cells (mem s) (aggregationPipeline s)]
            else calls s)"
proof (cases "p_cursor s")
  case (Some c)
  with assms(2) show ?thesis
    by (auto simp: getEndCursor_def memo_def not_found_slots_def)
next
  case None
  with assms(2) have n: "p_nextPage s = None" by (auto simp: not_found_slots_def)
  from not_found_getEdges[OF assms, of rx] getEdges_keeps[of s rx] n
  show ?thesis
    by (simp add: getEndCursor_unset[OF None] end_cursor_of_def not_found_slots_def)
qed

lemma not_found_hasNextPage:
  assumes "unresolved a s" and "not_found_slots a s"
  shows "fst (hasNextPage rx s) = Inl (CursorNotFound a)
       \<and> not_found_slots a (snd (hasNextPage rx s))
       \<and> p_model (snd (hasNextPage rx s)) \<noteq> None
       \<and> calls (snd (hasNextPage rx s)) =
           (if p_model s = None
            then calls s @ [Match (Test ''_id'' (Eq (Oid a))) # cells (mem s) (aggregationPipeline s)]
            else calls s)"
proof (cases "p_nextPage s")
  case (Some n)
  with assms(2) show ?thesis
    by (auto simp: hasNextPage_def memo_def not_found_slots_def)
next
  case None
  from not_found_getEndCursor[OF assms, of rx]
  have c: "fst (getEndCursor rx s) = Inl (CursorNotFound a)" by simp
  from not_found_getEndCursor[OF assms, of rx] getEndCursor_keeps[of s rx]
  show ?thesis
    by (auto simp: hasNextPage_error[OF None c] not_found_slots_def)
qed

lemma reachable_not_found_slots:
  assumes "unstarted s0" and "aggregationPipeline s0 < top (mem s0)" and "unresolved a s0"
    and "reachable rx s0 s"
  shows "not_found_slots a s \<and> unresolved a s"
  using assms(4)
proof (induction rule: reachable.induct)
  case constructed
  from assms(1,3) show ?case by (simp add: unstarted_def not_found_slots_def)
next
  case (called_getTotalCount s)
  from called_getTotalCount.hyps have r: "reachable rx s0 (snd (getTotalCount rx s))"
    by (rule reachable.called_getTotalCount)
  from unresolved_same_request[OF reachable_same_request[OF r] assms(2,3)]
    called_getTotalCount.IH getTotalCount_keeps[of s rx]
  show ?case by (simp add: not_found_slots_def)
next
  case (called_getEdges s)
  from called_getEdges.hyps have r: "reachable rx s0 (snd (getEdges rx s))"
    by (rule reachable.called_getEdges)
  from unresolved_same_request[OF reachable_same_request[OF r] assms(2,3)]
    not_found_getEdges[of a s rx] called_getEdges.IH
  show ?case by simp
next
  case (called_getEndCursor s)
  from called_getEndCursor.hyps have r: "reachable rx s0 (snd (getEndCursor rx s))"
    by (rule reachable.called_getEndCursor)
  from unresolved_same_request[OF reachable_same_request[OF r] assms(2,3)]
    not_found_getEndCursor[of a s rx] called_getEndCursor.IH
  show ?case by simp
next
  case (called_hasNextPage s)
  from called_hasNextPage.hyps have r: "reachable rx s0 (snd (hasNextPage rx s))"
    by (rule reachable.called_hasNextPage)
  from unresolved_same_request[OF reachable_same_request[OF r] assms(2,3)]
    not_found_hasNextPage[of a s rx] called_hasNextPage.IH
  show ?case by simp
qed

lemma constructor_request:
  "Model (constructor m0 db base pg so fs se) = db
   \<and> search (constructor m0 db base pg so fs se) = se
   \<and> pagination (constructor m0 db base pg so fs se) = pg
   \<and> sorting (constructor m0 db base pg so fs se) = so"
  by (simp add: constructor_def Let_def split: prod.splits)

text \<open>
  C5 (as amended). For an instance constructed in native mode with \<open>pagination.after = a\<close>,
  \<open>q\<close> being the match on the identifier \<open>a\<close> put in front of the instance's pipeline:
  \<open>findCursorModel\<close> fails with CursorNotFound exactly when \<open>q\<close> returns no document;
  in that case, in every state of the instance, \<open>getEdges\<close>, \<open>getEndCursor\<close> and
  \<open>hasNextPage\<close> fail with this error, and they hand \<open>q\<close> to the store only if no cursor
  lookup is stored yet, which one is after any of the three calls (nothing is retried);
  \<open>getTotalCount\<close> does not resolve the cursor and never fails with CursorNotFound.
\<close>

theorem cursor_not_found:
  assumes "after pg = Some a"
    and "s0 = constructor m0 db base pg so fs []"
    and "q = Match (Test ''_id'' (Eq (Oid a))) # cells (mem s0) (aggregationPipeline s0)"
    and "reachable rx s0 s"
  shows "((fst (findCursorModel a s0) = Inl (CursorNotFound a)) = (aggregate db q = Inr []))
       \<and> (aggregate db q = Inr [] \<longrightarrow>
            fst (getEdges rx s) = Inl (CursorNotFound a)
          \<and> fst (getEndCursor rx s) = Inl (CursorNotFound a)
          \<and> fst (hasNextPage rx s) = Inl (CursorNotFound a)
          \<and> calls (snd (getEdges rx s)) = (if p_model s = None then calls s @ [q] else calls s)
          \<and> calls (snd (getEndCursor rx s)) = (if p_model s = None then calls s @ [q] else calls s)
          \<and> calls (snd (hasNextPage rx s)) = (if p_model s = None then calls s @ [q] else calls s)
          \<and> p_model (snd (getEdges rx s)) \<noteq> None
          \<and> p_model (snd (getEndCursor rx s)) \<noteq> None
          \<and> p_model (snd (hasNextPage rx s)) \<noteq> None)
       \<and> fst (getTotalCount rx s) \<noteq> Inl (CursorNotFound a)"
proof -
  have u0: "unstarted s0" unfolding assms(2) by (rule unstarted_constructor)
  have t0: "aggregationPipeline s0 < top (mem s0)"
    unfolding assms(2) using constructor_frame[of m0 db base pg so fs "[]"] by simp
  have r0: "Model s0 = db" "search s0 = []" "pagination s0 = pg"
    unfolding assms(2) by (simp_all add: constructor_request)
  from u0 have m0: "p_model s0 = None" by (simp add: unstarted_def)
  have one: "(fst (findCursorModel a s0) = Inl (CursorNotFound a)) = (aggregate db q = Inr [])"
    using aggregate_error[of db q]
    by (auto simp: findCursorModel_fresh[OF m0] Let_def r0 assms(3)
        split: sum.splits list.splits)
  from reachable_same_request[OF assms(4)] t0
  have q: "q = Match (Test ''_id'' (Eq (Oid a))) # cells (mem s) (aggregationPipeline s)"
    by (simp add: assms(3) same_request_def frame_def)
  have two: "fst (getEdges rx s) = Inl (CursorNotFound a)
          \<and> fst (getEndCursor rx s) = Inl (CursorNotFound a)
          \<and> fst (hasNextPage rx s) = Inl (CursorNotFound a)
          \<and> calls (snd (getEdges rx s)) = (if p_model s = None then calls s @ [q] else calls s)
          \<and> calls (snd (getEndCursor rx s)) = (if p_model s = None then calls s @ [q] else calls s)
          \<and> calls (snd (hasNextPage rx s)) = (if p_model s = None then calls s @ [q] else calls s)
          \<and> p_model (snd (getEdges rx s)) \<noteq> None
          \<and> p_model (snd (getEndCursor rx s)) \<noteq> None
          \<and> p_model (snd (hasNextPage rx s)) \<noteq> None"
    if nf: "aggregate db q = Inr []"
  proof -
    from nf have u: "unresolved a s0"
      by (simp add: unresolved_def r0 assms(1,3))
    from reachable_not_found_slots[OF u0 t0 u assms(4)]
    have k: "not_found_slots a s" "unresolved a s" by simp_all
    from not_found_getEdges[OF k(2,1), of rx] not_found_getEndCursor[OF k(2,1), of rx]
      not_found_hasNextPage[OF k(2,1), of rx]
    show ?thesis unfolding q by simp
  qed
  have three: "fst (getTotalCount rx s) \<noteq> Inl (CursorNotFound a)"
  proof (cases "p_count s")
    case None
    then show ?thesis by (rule getTotalCount_no_cursor_error)
  next
    case (Some r)
    with reachable_count_not_cursor_error[OF u0 assms(4), of a] show ?thesis
      by (simp add: getTotalCount_def memo_def)
  qed
  from one two three show ?thesis by blast
qed

theorem cursor_not_found_witness:
  "fst (getEdges regex_literal
          (snd (getTotalCount regex_literal
            (constructor (caller_mem []) db3 0 \<lparr>first = Some 2, after = Some 7\<rparr>
               \<lparr>field = ''score'', order = - 1\<rparr> [] [])))) = Inl (CursorNotFound 7)
   \<and> fst (hasNextPage regex_literal
          (snd (getTotalCount regex_literal
            (constructor (caller_mem []) db3 0 \<lparr>first = Some 2, after = Some 7\<rparr>
               \<lparr>field = ''score'', order = - 1\<rparr> [] [])))) = Inl (CursorNotFound 7)"
proof -
  define pg where "pg = \<lparr>first = Some (2::int), after = Some (7::nat)\<rparr>"
  define s0 where "s0 = constructor (caller_mem []) db3 0 pg
               \<lparr>field = ''score'', order = - 1\<rparr> [] []"
  define s where "s = snd (getTotalCount regex_literal s0)"
  define q where "q = Match (Test ''_id'' (Eq (Oid 7))) # cells (mem s0) (aggregationPipeline s0)"
  have a: "after pg = Some 7" by (simp add: pg_def)
  have r: "reachable regex_literal s0 s"
    unfolding s_def by (rule called_getTotalCount[OF constructed])
  have nf: "aggregate db3 q = Inr []" unfolding q_def s0_def pg_def by code_simp
  from cursor_not_found[OF a s0_def q_def r] nf
  have "fst (getEdges regex_literal s) = Inl (CursorNotFound 7)
       \<and> fst (hasNextPage regex_literal s) = Inl (CursorNotFound 7)" by blast
  then show ?thesis unfolding s_def s0_def pg_def .
qed

text \<open>
  The statement fails for \<open>getTotalCount\<close> as the specification has it: no document has the identifier 7, and
  the count resolves to 3.
\<close>

theorem getTotalCount_ignores_cursor:
  "aggregate db3 [Match (Test ''_id'' (Eq (Oid 7)))] = Inr []
   \<and> fst (getTotalCount regex_literal
          (constructor (caller_mem []) db3 0 \<lparr>first = Some 2, after = Some 7\<rparr>
             \<lparr>field = [], order = 0\<rparr> [] [])) = Inr (Some (Num 3))"
  by code_simp


section \<open>The boundary stage\<close>

lemma aggregationAddPagination_after:
  assumes "p_model s = None"
    and "aggregate (Model s)
           (Match (Test ''_id'' (Eq (Oid a))) # cells (mem s) (aggregationPipeline s)) =
         Inr (r # rs)"
  shows "fst (aggregationAddPagination (aggregationPipeline s) (Some a) s) = Inr (top (mem s))
       \<and> cells (mem (snd (aggregationAddPagination (aggregationPipeline s) (Some a) s)))
           (top (mem s)) =
           cells (mem s) (aggregationPipeline s) @
             [Match (Or (ors_of (sorting s) r a)),
              Limit (case first (pagination s) of
                       None \<Rightarrow> 25 | Some n \<Rightarrow> if n = 0 then 25 else n)]"
  using assms
  by (simp add: aggregationAddPagination_def findCursorModel_def findCursorModel_run_def memo_def
      await_def Model_aggregate_def slice_def unshift_def push_def return_def throw_def Let_def)

text \<open>
  C3. After the boundary document (identifier 2, score 5) under a descending sort on the
  score, \<open>aggregationAddPagination\<close> appends one \<open>$match\<close> stage, with the condition
  \<open>(score < 5) OR (_id > 2)\<close>, and the limit: the stage has the form the specification
  gives. It does not admit exactly the records beyond the boundary: it admits the
  document with identifier 3 and score 9, which the sort puts before the boundary
  document, and which is neither strictly past the boundary on the sort key nor tied
  with it. The second disjunct lacks the condition that the sort keys are tied.
\<close>

theorem boundary_admits_earlier_record:
  "cells (mem (snd (aggregationAddPagination 1 (Some 2)
      (constructor (caller_mem []) db3 0 \<lparr>first = Some 1, after = Some 2\<rparr>
             \<lparr>field = ''score'', order = - 1\<rparr> [] [])))) 2 =
     [Sort ''score'' (- 1),
      Match (Or [(''score'', Lt (Some (Num 5))), (''_id'', Gt (Some (Oid 2)))]), Limit 1]
   \<and> aggregate db3 [Sort ''score'' (- 1)] =
     Inr [[(''_id'', Oid 3), (''score'', Num 9)], [(''_id'', Oid 2), (''score'', Num 5)],
          [(''_id'', Oid 1), (''score'', Num 1)]]
   \<and> matches (Or [(''score'', Lt (Some (Num 5))), (''_id'', Gt (Some (Oid 2)))])
        [(''_id'', Oid 3), (''score'', Num 9)]
   \<and> \<not> beyond_boundary (- 1) ''score'' [(''_id'', Oid 2), (''score'', Num 5)]
          [(''_id'', Oid 3), (''score'', Num 9)]
   \<and> \<not> strictly_past (- 1) (Some (Num 5)) (Some (Num 9))
   \<and> sort_rank (Some (Num 9)) \<noteq> sort_rank (Some (Num 5))"
  by code_simp


section \<open>The total count\<close>

text \<open>
  In native mode \<open>getTotalCount\<close> counts the documents of the instance's pipeline without
  its \<open>$project\<close> stages (0 when there is none); in search mode it counts the documents
  of the pipeline that match the pattern.
\<close>

lemma aggregate_append:
  "aggregate ds (p @ q) =
     (case aggregate ds p of Inl e \<Rightarrow> Inl e | Inr ds' \<Rightarrow> aggregate ds' q)"
  by (induction p arbitrary: ds) (simp_all split: sum.splits)

lemma getTotalCount_native:
  assumes "p_count s = None" and "search s = []"
    and "aggregate (Model s)
           (filter (\<lambda>st. Object_keys0 st \<noteq> ''$project'') (cells (mem s) (aggregationPipeline s))) =
         Inr docs"
  shows "fst (getTotalCount rx s) = Inr (Some (Num (int (length docs))))"
  using assms
  by (cases docs)
    (simp_all add: getTotalCount_def getTotalCount_run_def memo_def await_def Model_aggregate_def
      slice_def push_def array_filter_def return_def aggregate_append getv_def)

lemma getTotalCount_search:
  assumes "p_count s = None" and "search s \<noteq> []"
    and "aggregate (Model s) (cells (mem s) (aggregationPipeline s)) = Inr docs"
  shows "fst (getTotalCount rx s) =
           (case rx (search s) ''i'' of
              None \<Rightarrow> Inl SyntaxError
            | Some regex \<Rightarrow> Inr (Some (Num (int (length (filter (doc_matches regex) docs))))))"
  using assms
  by (simp add: getTotalCount_def getTotalCount_run_def memo_def await_def Model_aggregate_def
      slice_def return_def throw_def filterResults_def filter_with_no_pagination
      split: option.splits)

text \<open>
  C9. With the base pipeline \<open>[{$project: {name: 1}}]\<close> and a filter on \<open>status\<close>, the
  instance's pipeline yields no document (the projection drops \<open>status\<close> before the
  filter reads it) and \<open>getEdges\<close> resolves to no edge, while \<open>getTotalCount\<close>, which
  removes the \<open>$project\<close> stage before it counts, resolves to 2.
\<close>

theorem count_differs_from_pipeline:
  "cells (mem (constructor (caller_mem [Project [''name'']]) db_status 0
        \<lparr>first = None, after = None\<rparr> \<lparr>field = [], order = 0\<rparr>
        [\<lparr>ffield = ''status'', fvalue = [Str ''active'']\<rparr>] [])) 1 =
     [Project [''name''], Match (Test ''status'' (In [Str ''active'']))]
   \<and> aggregate db_status
        [Project [''name''], Match (Test ''status'' (In [Str ''active'']))] = Inr []
   \<and> fst (getEdges regex_literal (constructor (caller_mem [Project [''name'']]) db_status 0
        \<lparr>first = None, after = None\<rparr> \<lparr>field = [], order = 0\<rparr>
        [\<lparr>ffield = ''status'', fvalue = [Str ''active'']\<rparr>] [])) = Inr []
   \<and> fst (getTotalCount regex_literal (constructor (caller_mem [Project [''name'']]) db_status 0
        \<lparr>first = None, after = None\<rparr> \<lparr>field = [], order = 0\<rparr>
        [\<lparr>ffield = ''status'', fvalue = [Str ''active'']\<rparr>] [])) = Inr (Some (Num 2))"
  by code_simp


section \<open>The page size\<close>

text \<open>
  In native mode a page holds at most \<open>pagination.first\<close> edges, or 25 when \<open>first\<close> is
  absent (or 0); in search mode it holds at most \<open>pagination.first\<close> edges when \<open>first\<close>
  is given.
\<close>

lemma aggregate_limit_length:
  assumes "aggregate ds (p @ [Limit n]) = Inr docs"
  shows "0 < n \<and> int (length docs) \<le> n"
  using assms by (auto simp: aggregate_append split: sum.splits if_splits)

lemma aggregationAddPagination_limit:
  assumes "aggregationAddPagination p aft s = (Inr a, s')"
  shows "\<exists>xs. cells (mem s') a = xs @
           [Limit (case first (pagination s) of None \<Rightarrow> 25 | Some k \<Rightarrow> if k = 0 then 25 else k)]"
  using assms
  by (auto simp: aggregationAddPagination_def findCursorModel_def findCursorModel_run_def
      memo_def await_def Model_aggregate_def slice_def unshift_def push_def return_def throw_def
      Let_def
      split: option.splits sum.splits list.splits prod.splits)

lemma getEdges_native_bound:
  assumes "search s = []" and "p_edge s = None" and "fst (getEdges rx s) = Inr es"
  shows "int (length es) \<le>
           (case first (pagination s) of None \<Rightarrow> 25 | Some k \<Rightarrow> if k = 0 then 25 else k)"
proof -
  obtain r s1 where a: "aggregationAddPagination (aggregationPipeline s) (after (pagination s)) s = (r, s1)"
    by (cases "aggregationAddPagination (aggregationPipeline s) (after (pagination s)) s")
  show ?thesis
  proof (cases r)
    case (Inl e)
    with assms a show ?thesis
      by (simp add: getEdges_def getEdges_run_def memo_def await_def)
  next
    case (Inr b)
    from aggregationAddPagination_limit[OF a[unfolded Inr]] obtain xs where
      x: "cells (mem s1) b = xs @
           [Limit (case first (pagination s) of None \<Rightarrow> 25 | Some k \<Rightarrow> if k = 0 then 25 else k)]"
      by blast
    from assms a Inr obtain docs where
      d: "aggregate (Model s1) (cells (mem s1) b) = Inr docs" and e: "es = map to_edge docs"
      by (auto simp: getEdges_def getEdges_run_def memo_def await_def return_def
          Model_aggregate_def split: sum.splits)
    from aggregate_limit_length[OF d[unfolded x]] e show ?thesis by simp
  qed
qed

lemma filterResults_bound:
  assumes "first p = Some k" and "0 \<le> k"
    and "filterResults rx rs pat (Some p) = Inr matching"
  shows "int (length matching) \<le> k"
proof -
  from assms(3) obtain regex where c: "rx pat ''i'' = Some regex"
    by (auto simp: filterResults_def split: option.splits)
  show ?thesis
  proof (cases "after p")
    case None
    with assms c filter_with_counting[OF assms(1), of 0 regex rs] show ?thesis
      by (auto simp: filterResults_def)
  next
    case (Some a)
    have ne: "first p \<noteq> Some (- 1)" using assms by auto
    from Some assms c filter_with_skipping[OF Some ne, of regex rs]
      filter_with_counting[OF assms(1), of 0 regex] show ?thesis
      by (auto simp: filterResults_def)
  qed
qed

lemma getEdges_search_bound:
  assumes "search s \<noteq> []" and "p_edge s = None" and "first (pagination s) = Some k"
    and "0 \<le> k" and "fst (getEdges rx s) = Inr es"
  shows "int (length es) \<le> k"
  using assms filterResults_bound[OF assms(3,4), of rx]
  by (auto simp: getEdges_def getEdges_run_def memo_def await_def return_def throw_def
      Model_aggregate_def split: sum.splits)

text \<open>
  C6. In search mode with \<open>pagination.first\<close> absent, \<open>getEdges\<close> over twenty-six matching
  documents resolves to twenty-six edges: \<open>filterResults\<close> compares its counter with
  \<open>undefined\<close> and never stops, and the default of 25 is applied in
  \<open>aggregationAddPagination\<close> only, which search mode does not call. The same request in
  native mode resolves to 25 edges.
\<close>

theorem search_mode_page_unbounded:
  "(case fst (getEdges regex_literal
          (constructor (caller_mem []) docs26 0 \<lparr>first = None, after = None\<rparr>
             \<lparr>field = [], order = 0\<rparr> [] ''x'')) of
      Inl e \<Rightarrow> False | Inr edges \<Rightarrow> length edges = 26)
   \<and> (case fst (getEdges regex_literal
          (constructor (caller_mem []) docs26 0 \<lparr>first = None, after = None\<rparr>
             \<lparr>field = [], order = 0\<rparr> [] [])) of
      Inl e \<Rightarrow> False | Inr edges \<Rightarrow> length edges = 25)"
  by code_simp


section \<open>Consecutive pages and the next page\<close>

text \<open>
  Without a sort, when the instance's pipeline yields its documents in ascending order of
  their identifiers and the cursor of every one of them resolves, consecutive pages are
  consecutive segments of that sequence: \<open>n\<close> requests return its first \<open>n * perPage\<close>
  documents, and \<open>hasNextPage\<close> says whether documents lie beyond the page.
\<close>

lemma getEdges_first_page:
  assumes "search s = []" and "p_edge s = None" and "after (pagination s) = None"
    and "aggregate (Model s) (cells (mem s) (aggregationPipeline s)) = Inr docs"
    and "pp = (case first (pagination s) of None \<Rightarrow> 25 | Some k \<Rightarrow> if k = 0 then 25 else k)"
    and "0 < pp"
  shows "fst (getEdges rx s) = Inr (map to_edge (take (nat pp) docs))
       \<and> p_model (snd (getEdges rx s)) = p_model s"
  using assms
  by (simp add: getEdges_def getEdges_run_def memo_def await_def aggregationAddPagination_def
      Model_aggregate_def slice_def push_def return_def aggregate_append Let_def)

lemma getEdges_next_page:
  assumes "search s = []" and "p_edge s = None" and "p_model s = None"
    and "after (pagination s) = Some k"
    and "field (sorting s) = [] \<or> order (sorting s) = 0"
    and "aggregate (Model s)
           (Match (Test ''_id'' (Eq (Oid k))) # cells (mem s) (aggregationPipeline s)) =
         Inr (r # rs)"
    and "aggregate (Model s) (cells (mem s) (aggregationPipeline s)) = Inr docs"
    and "pp = (case first (pagination s) of None \<Rightarrow> 25 | Some k \<Rightarrow> if k = 0 then 25 else k)"
    and "0 < pp"
  shows "fst (getEdges rx s) =
           Inr (map to_edge
                  (take (nat pp) (filter (matches (Or [(''_id'', Gt (Some (Oid k)))])) docs)))
       \<and> p_model (snd (getEdges rx s)) = Some (Inr r)"
proof -
  from aggregationAddPagination_after[OF assms(3,6)] assms(5)
  obtain s1 where a: "aggregationAddPagination (aggregationPipeline s) (Some k) s = (Inr (top (mem s)), s1)"
    and c: "cells (mem s1) (top (mem s)) =
           cells (mem s) (aggregationPipeline s) @
             [Match (Or [(''_id'', Gt (Some (Oid k)))]), Limit pp]"
    by (cases "aggregationAddPagination (aggregationPipeline s) (Some k) s")
      (auto simp: ors_of_def assms(8))
  have pm: "p_model s1 = Some (Inr r)"
    using a assms(3,6)
    by (auto simp: aggregationAddPagination_def findCursorModel_def findCursorModel_run_def
        memo_def await_def Model_aggregate_def slice_def unshift_def push_def return_def
        throw_def Let_def)
  from aggregationAddPagination_keeps[of s "aggregationPipeline s" "Some k"] a
  have m: "Model s1 = Model s" by (simp add: same_request_def)
  show ?thesis
    using assms(1,2,4,7,9) a c m pm
    by (simp add: getEdges_def getEdges_run_def memo_def await_def Model_aggregate_def
        return_def aggregate_append)
qed

lemma aggregationAddPagination_no_sort:
  assumes "field (sorting s) = [] \<or> order (sorting s) = 0"
    and "p_model s = None
           \<and> aggregate (Model s)
               (Match (Test ''_id'' (Eq (Oid k))) # cells (mem s) (aggregationPipeline s)) =
             Inr (r # rs)
         \<or> p_model s = Some (Inr r)"
    and "pp = (case first (pagination s) of None \<Rightarrow> 25 | Some k \<Rightarrow> if k = 0 then 25 else k)"
  shows "fst (aggregationAddPagination (aggregationPipeline s) (Some k) s) = Inr (top (mem s))
       \<and> cells (mem (snd (aggregationAddPagination (aggregationPipeline s) (Some k) s)))
           (top (mem s)) =
           cells (mem s) (aggregationPipeline s) @
             [Match (Or [(''_id'', Gt (Some (Oid k)))]), Limit pp]"
  using assms
  by (auto simp: aggregationAddPagination_def findCursorModel_def findCursorModel_run_def
      memo_def await_def Model_aggregate_def slice_def unshift_def push_def return_def
      throw_def Let_def ors_of_def)

lemma filter_beyond_last:
  assumes "sorted_wrt (\<lambda>x y. f x < (f y :: nat)) xs" and "take n xs \<noteq> []"
  shows "filter (\<lambda>d. f (last (take n xs)) < f d) xs = drop n xs"
proof -
  let ?k = "f (last (take n xs))"
  from assms(1) have s: "sorted_wrt (\<lambda>x y. f x < f y) (take n xs @ drop n xs)" by simp
  then have st: "sorted_wrt (\<lambda>x y. f x < f y) (take n xs)"
    and cross: "\<forall>p\<in>set (take n xs). \<forall>q\<in>set (drop n xs). f p < f q"
    unfolding sorted_wrt_append by simp_all
  from assms(2) have l: "last (take n xs) \<in> set (take n xs)" by simp
  have le: "f x \<le> ?k" if "x \<in> set (take n xs)" for x
  proof -
    from assms(2) have e: "take n xs = butlast (take n xs) @ [last (take n xs)]" by simp
    from st have "sorted_wrt (\<lambda>x y. f x < f y) (butlast (take n xs) @ [last (take n xs)])"
      using e by simp
    then have "\<forall>y\<in>set (butlast (take n xs)). f y < ?k"
      unfolding sorted_wrt_append by simp
    moreover from that e have "x \<in> set (butlast (take n xs)) \<or> x = last (take n xs)"
      by (metis Un_iff insert_iff list.set(2) set_append empty_iff list.set(1))
    ultimately show ?thesis by auto
  qed
  have a: "filter (\<lambda>d. ?k < f d) (take n xs) = []"
    using le by (auto simp: filter_empty_conv leD)
  have b: "filter (\<lambda>d. ?k < f d) (drop n xs) = drop n xs"
    using cross l by (auto simp: filter_id_conv)
  have "filter (\<lambda>d. ?k < f d) xs = filter (\<lambda>d. ?k < f d) (take n xs @ drop n xs)" by simp
  also have "\<dots> = drop n xs" unfolding filter_append a b by simp
  finally show ?thesis .
qed

lemma fetch_pages_no_sort:
  fixes ident :: "doc \<Rightarrow> nat"
  assumes nosort: "field so = [] \<or> order so = 0"
    and P: "P = cells m base @ map (\<lambda>f. Match (Test (ffield f) (In (fvalue f)))) fs"
    and docs: "aggregate db P = Inr docs"
    and ids: "\<forall>d\<in>set docs. getv d ''_id'' = Some (Oid (ident d))"
    and asc: "sorted_wrt (\<lambda>x y. ident x < ident y) docs"
    and res: "\<forall>d\<in>set docs. \<exists>r rs.
                aggregate db (Match (Test ''_id'' (Eq (Oid (ident d)))) # P) = Inr (r # rs)"
    and pp: "pp = (case fo of None \<Rightarrow> 25 | Some k \<Rightarrow> if k = 0 then 25 else k)" "0 < pp"
  shows "aft = None \<or> (\<exists>d\<in>set docs. aft = Some (ident d)) \<Longrightarrow>
         \<exists>pages. fetch_pages rx n m db base fo so fs aft = Inr pages
           \<and> concat pages =
               take (n * nat pp)
                 (case aft of None \<Rightarrow> docs | Some k \<Rightarrow> filter (\<lambda>d. k < ident d) docs)"
proof (induction n arbitrary: aft)
  case 0
  show ?case by simp
next
  case (Suc n)
  define s0 where "s0 = constructor m db base \<lparr>first = fo, after = aft\<rparr> so fs []"
  define B where "B = (case aft of None \<Rightarrow> docs | Some k \<Rightarrow> filter (\<lambda>d. k < ident d) docs)"
  define page where "page = take (nat pp) B"
  have u: "p_edge s0 = None" "p_model s0 = None" "p_cursor s0 = None"
    using unstarted_constructor[of m db base "\<lparr>first = fo, after = aft\<rparr>" so fs "[]"]
    by (simp_all add: s0_def unstarted_def)
  have r: "Model s0 = db" "search s0 = []" "pagination s0 = \<lparr>first = fo, after = aft\<rparr>"
    "sorting s0 = so"
    by (simp_all add: s0_def constructor_request)
  have c: "cells (mem s0) (aggregationPipeline s0) = P"
    using nosort
    by (auto simp: s0_def P constructor_def slice_def Let_def fold_push_cells push_def)
  have sub: "set B \<subseteq> set docs" by (auto simp: B_def split: option.splits)
  have sB: "sorted_wrt (\<lambda>x y. ident x < ident y) B"
    using asc by (auto simp: B_def sorted_wrt_filter split: option.splits)
  have e: "fst (getEdges rx s0) = Inr (map to_edge page)"
  proof (cases aft)
    case None
    with getEdges_first_page[of s0 docs pp rx] u r c docs pp show ?thesis
      by (simp add: page_def B_def)
  next
    case (Some k)
    with Suc.prems obtain d where d: "d \<in> set docs" "k = ident d" by auto
    with res obtain r0 rs where
      l: "aggregate db (Match (Test ''_id'' (Eq (Oid k))) # P) = Inr (r0 # rs)" by blast
    have f: "filter (matches (Or [(''_id'', Gt (Some (Oid k)))])) docs =
             filter (\<lambda>d. k < ident d) docs"
      using ids by (intro filter_cong) auto
    from getEdges_next_page[of s0 k r0 rs docs pp rx] u r c docs pp nosort l Some
    show ?thesis by (simp add: page_def B_def f)
  qed
  obtain s1 where g: "getEdges rx s0 = (Inr (map to_edge page), s1)"
    using e by (cases "getEdges rx s0") auto
  from getEdges_keeps[of s0 rx] g u
  have k1: "p_cursor s1 = None" "p_edge s1 = Some (Inr (map to_edge page))" by simp_all
  have ec: "getEndCursor rx s1 =
              (Inr (if page = [] then None else getv (last page) ''_id''),
               s1\<lparr>p_cursor := Some (Inr (if page = [] then None else getv (last page) ''_id''))\<rparr>)"
    by (simp add: getEndCursor_unset[OF k1(1)] getEdges_memo[OF k1(2)] end_cursor_of_def
        last_map to_edge_def)
  show ?case
  proof (cases "page = []")
    case True
    with pp(2) have "B = []" by (simp add: page_def)
    with True g ec show ?thesis
      by (simp add: s0_def[symmetric] B_def[symmetric])
  next
    case False
    then have lp: "last page \<in> set docs"
      using sub by (metis in_set_takeD last_in_set page_def subsetD)
    with ids have li: "getv (last page) ''_id'' = Some (Oid (ident (last page)))" by simp
    let ?k = "ident (last page)"
    from lp have a': "Some ?k = None \<or> (\<exists>d\<in>set docs. Some ?k = Some (ident d))" by blast
    from Suc.IH[OF a'] obtain pages where
      ih: "fetch_pages rx n m db base fo so fs (Some ?k) = Inr pages"
        "concat pages = take (n * nat pp) (filter (\<lambda>d. ?k < ident d) docs)"
      by auto
    have nb: "filter (\<lambda>d. ?k < ident d) B = drop (nat pp) B"
      using filter_beyond_last[OF sB, of "nat pp"] False by (simp add: page_def)
    have fb: "filter (\<lambda>d. ?k < ident d) docs = filter (\<lambda>d. ?k < ident d) B"
    proof (cases aft)
      case None
      then show ?thesis by (simp add: B_def)
    next
      case (Some k)
      from False have "last page \<in> set B"
        by (metis in_set_takeD last_in_set page_def)
      with Some have "k < ?k" by (simp add: B_def)
      then have "\<And>d. (k < ident d \<and> ?k < ident d) = (?k < ident d)" by auto
      with Some show ?thesis by (simp add: B_def)
    qed
    have m: "map node (map to_edge page) = page" by (simp add: to_edge_def comp_def)
    have "concat (page # pages) = take (Suc n * nat pp) B"
      using ih(2) fb nb by (simp add: page_def take_add)
    with False g ec li ih(1) m show ?thesis
      by (simp add: s0_def[symmetric] B_def[symmetric])
  qed
qed

lemma hasNextPage_no_sort:
  fixes ident :: "doc \<Rightarrow> nat"
  assumes nosort: "field so = [] \<or> order so = 0"
    and P: "P = cells m base @ map (\<lambda>f. Match (Test (ffield f) (In (fvalue f)))) fs"
    and docs: "aggregate db P = Inr docs"
    and ids: "\<forall>d\<in>set docs. getv d ''_id'' = Some (Oid (ident d))"
    and asc: "sorted_wrt (\<lambda>x y. ident x < ident y) docs"
    and res: "\<forall>d\<in>set docs. \<exists>r rs.
                aggregate db (Match (Test ''_id'' (Eq (Oid (ident d)))) # P) = Inr (r # rs)"
    and pp: "pp = (case fo of None \<Rightarrow> 25 | Some k \<Rightarrow> if k = 0 then 25 else k)" "0 < pp"
    and aft: "aft = None \<or> (\<exists>d\<in>set docs. aft = Some (ident d))"
    and B: "B = (case aft of None \<Rightarrow> docs | Some k \<Rightarrow> filter (\<lambda>d. k < ident d) docs)"
    and ne: "take (nat pp) B \<noteq> []"
  shows "fst (hasNextPage rx (constructor m db base \<lparr>first = fo, after = aft\<rparr> so fs [])) =
           Inr (drop (nat pp) B \<noteq> [])"
proof -
  define s0 where "s0 = constructor m db base \<lparr>first = fo, after = aft\<rparr> so fs []"
  define page where "page = take (nat pp) B"
  have u: "p_edge s0 = None" "p_model s0 = None" "p_cursor s0 = None" "p_nextPage s0 = None"
    using unstarted_constructor[of m db base "\<lparr>first = fo, after = aft\<rparr>" so fs "[]"]
    by (simp_all add: s0_def unstarted_def)
  have r: "Model s0 = db" "search s0 = []" "pagination s0 = \<lparr>first = fo, after = aft\<rparr>"
    "sorting s0 = so"
    by (simp_all add: s0_def constructor_request)
  have t0: "aggregationPipeline s0 < top (mem s0)"
    unfolding s0_def
    using constructor_frame[of m db base "\<lparr>first = fo, after = aft\<rparr>" so fs "[]"] by simp
  have c: "cells (mem s0) (aggregationPipeline s0) = P"
    using nosort
    by (auto simp: s0_def P constructor_def slice_def Let_def fold_push_cells push_def)
  have sub: "set B \<subseteq> set docs" by (auto simp: B split: option.splits)
  have sB: "sorted_wrt (\<lambda>x y. ident x < ident y) B"
    using asc by (auto simp: B sorted_wrt_filter split: option.splits)
  have e: "fst (getEdges rx s0) = Inr (map to_edge page)
           \<and> (\<exists>r0. p_model (snd (getEdges rx s0)) = None
                   \<and> (\<forall>d\<in>set docs. \<exists>r rs.
                        aggregate db (Match (Test ''_id'' (Eq (Oid (ident d)))) # P) = Inr (r # rs))
                 \<or> p_model (snd (getEdges rx s0)) = Some (Inr r0))"
  proof (cases aft)
    case None
    with getEdges_first_page[of s0 docs pp rx] u r c docs pp res show ?thesis
      by (simp add: page_def B)
  next
    case (Some k)
    with aft obtain d where d: "d \<in> set docs" "k = ident d" by auto
    with res obtain r0 rs where
      l: "aggregate db (Match (Test ''_id'' (Eq (Oid k))) # P) = Inr (r0 # rs)" by blast
    have f: "filter (matches (Or [(''_id'', Gt (Some (Oid k)))])) docs =
             filter (\<lambda>d. k < ident d) docs"
      using ids by (intro filter_cong) auto
    from getEdges_next_page[of s0 k r0 rs docs pp rx] u r c docs pp nosort l Some
    show ?thesis by (auto simp: page_def B f)
  qed
  define s1 where "s1 = snd (getEdges rx s0)"
  have g: "getEdges rx s0 = (Inr (map to_edge page), s1)"
    using e by (cases "getEdges rx s0") (auto simp: s1_def)
  from ne have np: "page \<noteq> []" by (simp add: page_def)
  from ne have lp: "last page \<in> set docs"
    using sub by (metis in_set_takeD last_in_set page_def subsetD)
  with ids have li: "getv (last page) ''_id'' = Some (Oid (ident (last page)))" by simp
  let ?k = "ident (last page)"
  define s2 where "s2 = s1\<lparr>p_cursor := Some (Inr (Some (Oid ?k)))\<rparr>"
  have ec: "getEndCursor rx s0 = (Inr (Some (Oid ?k)), s2)"
    using np li g
    by (simp add: getEndCursor_unset[OF u(3)] end_cursor_of_def last_map to_edge_def s2_def)
  from getEdges_keeps[of s0 rx]
  have k1: "same_request s0 s1" by (simp add: s1_def)
  with r t0 c have r2: "Model s2 = db" "sorting s2 = so" "pagination s2 = \<lparr>first = fo, after = aft\<rparr>"
    "cells (mem s2) (aggregationPipeline s2) = P"
    by (auto simp: s2_def same_request_def frame_def)
  obtain r0 rs where pm: "p_model s2 = None
           \<and> aggregate (Model s2)
               (Match (Test ''_id'' (Eq (Oid ?k))) # cells (mem s2) (aggregationPipeline s2)) =
             Inr (r0 # rs)
         \<or> p_model s2 = Some (Inr r0)"
  proof -
    from e have "(p_model s1 = None
                   \<and> (\<forall>d\<in>set docs. \<exists>r rs.
                        aggregate db (Match (Test ''_id'' (Eq (Oid (ident d)))) # P) = Inr (r # rs)))
                 \<or> (\<exists>r0. p_model s1 = Some (Inr r0))"
      by (auto simp: s1_def)
    then show ?thesis
    proof
      assume a: "p_model s1 = None
                   \<and> (\<forall>d\<in>set docs. \<exists>r rs.
                        aggregate db (Match (Test ''_id'' (Eq (Oid (ident d)))) # P) = Inr (r # rs))"
      with lp obtain r0 rs where
        "aggregate db (Match (Test ''_id'' (Eq (Oid ?k))) # P) = Inr (r0 # rs)" by blast
      with a r2 that show ?thesis by (simp add: s2_def)
    next
      assume "\<exists>r0. p_model s1 = Some (Inr r0)"
      with that show ?thesis by (auto simp: s2_def)
    qed
  qed
  have pp2: "pp = (case first (pagination s2) of None \<Rightarrow> 25 | Some k \<Rightarrow> if k = 0 then 25 else k)"
    using pp(1) r2 by simp
  from r2 nosort have ns2: "field (sorting s2) = [] \<or> order (sorting s2) = 0" by simp
  define s3 where "s3 = snd (aggregationAddPagination (aggregationPipeline s2) (Some ?k) s2)"
  from aggregationAddPagination_no_sort[OF ns2 pm pp2]
  have ap: "aggregationAddPagination (aggregationPipeline s2) (Some ?k) s2 = (Inr (top (mem s2)), s3)"
    and cs: "cells (mem s3) (top (mem s2)) =
               P @ [Match (Or [(''_id'', Gt (Some (Oid ?k)))]), Limit pp]"
    by (cases "aggregationAddPagination (aggregationPipeline s2) (Some ?k) s2";
        simp add: s3_def r2)+
  from aggregationAddPagination_keeps[of s2 "aggregationPipeline s2" "Some ?k"]
  have m3: "Model s3 = db" by (simp add: s3_def same_request_def r2)
  have f: "filter (matches (Or [(''_id'', Gt (Some (Oid ?k)))])) docs =
           filter (\<lambda>d. ?k < ident d) docs"
    using ids by (intro filter_cong) auto
  have nb: "filter (\<lambda>d. ?k < ident d) B = drop (nat pp) B"
    using filter_beyond_last[OF sB, of "nat pp"] ne by (simp add: page_def)
  have fb: "filter (\<lambda>d. ?k < ident d) docs = filter (\<lambda>d. ?k < ident d) B"
  proof (cases aft)
    case None
    then show ?thesis by (simp add: B)
  next
    case (Some k)
    from ne have "last page \<in> set B"
      by (metis in_set_takeD last_in_set page_def)
    with Some have "k < ?k" by (simp add: B)
    then have "\<And>d. (k < ident d \<and> ?k < ident d) = (?k < ident d)" by auto
    with Some show ?thesis by (simp add: B)
  qed
  have ag: "aggregate db (P @ [Match (Or [(''_id'', Gt (Some (Oid ?k)))]), Limit pp]) =
            Inr (take (nat pp) (drop (nat pp) B))"
    using docs pp(2) by (simp add: aggregate_append f fb nb)
  have "fst (hasNextPage_run rx s0) = Inr (drop (nat pp) B \<noteq> [])"
    using ec ap cs m3 ag pp(2)
    by (simp add: hasNextPage_run_def await_def Model_aggregate_def return_def)
  with u(4) show ?thesis
    by (cases "hasNextPage_run rx s0") (simp add: hasNextPage_def memo_def s0_def)
qed

text \<open>The two scenarios of the specification (section 8).\<close>

lemma scenario_thirty_records:
  "fetch_pages regex_literal 3 (caller_mem []) docs30 0 (Some 10) \<lparr>field = [], order = 0\<rparr> []
     None =
   Inr [map doc_with_id [1..<11], map doc_with_id [11..<21], map doc_with_id [21..<31]]
   \<and> fst (hasNextPage regex_literal (constructor (caller_mem []) docs30 0
         \<lparr>first = Some 10, after = None\<rparr> \<lparr>field = [], order = 0\<rparr> [] [])) = Inr True
   \<and> fst (hasNextPage regex_literal (constructor (caller_mem []) docs30 0
         \<lparr>first = Some 10, after = Some 10\<rparr> \<lparr>field = [], order = 0\<rparr> [] [])) = Inr True
   \<and> fst (hasNextPage regex_literal (constructor (caller_mem []) docs30 0
         \<lparr>first = Some 10, after = Some 20\<rparr> \<lparr>field = [], order = 0\<rparr> [] [])) = Inr False"
  by code_simp

lemma scenario_tied_scores:
  "fetch_pages regex_literal 2 (caller_mem []) db4 0 (Some 2)
     \<lparr>field = ''score'', order = - 1\<rparr> [] None =
   Inr [[[(''_id'', Oid 10), (''score'', Num 5)], [(''_id'', Oid 11), (''score'', Num 5)]],
        [[(''_id'', Oid 12), (''score'', Num 3)], [(''_id'', Oid 13), (''score'', Num 1)]]]"
  by code_simp

text \<open>
  After a request with \<open>after\<close> = 2, \<open>hasNextPage\<close> takes the boundary value from the
  memoized cursor document of \<open>after\<close> (score 5), not from the document of the end cursor
  (identifier 3, score 9): \<open>promises.model\<close> is set once, whatever the identifier.
\<close>

lemma hasNextPage_reuses_cursor_document:
  "calls (snd (hasNextPage regex_literal
     (constructor (caller_mem []) db3 0 \<lparr>first = Some 1, after = Some 2\<rparr>
        \<lparr>field = ''score'', order = - 1\<rparr> [] []))) =
   [[Match (Test ''_id'' (Eq (Oid 2))), Sort ''score'' (- 1)],
    [Sort ''score'' (- 1),
     Match (Or [(''score'', Lt (Some (Num 5))), (''_id'', Gt (Some (Oid 2)))]), Limit 1],
    [Sort ''score'' (- 1),
     Match (Or [(''score'', Lt (Some (Num 5))), (''_id'', Gt (Some (Oid 3)))]), Limit 1]]"
  by code_simp

text \<open>
  C1. Three consecutive pages of size 1 over \<open>db3\<close>, sorted by score in descending order:
  the base pipeline with its sort yields the documents 3, 2, 1, and the pages are 3, 2
  and 3 again. The third request (\<open>after\<close> = 2) matches \<open>(score < 5) OR (_id > 2)\<close>, which
  admits document 3 by its identifier: document 3 is returned twice, document 1 never.
\<close>

theorem pages_repeat_a_record:
  "aggregate db3 [Sort ''score'' (- 1)] =
     Inr [[(''_id'', Oid 3), (''score'', Num 9)], [(''_id'', Oid 2), (''score'', Num 5)],
          [(''_id'', Oid 1), (''score'', Num 1)]]
   \<and> fetch_pages regex_literal 3 (caller_mem []) db3 0 (Some 1)
        \<lparr>field = ''score'', order = - 1\<rparr> [] None =
     Inr [[[(''_id'', Oid 3), (''score'', Num 9)]], [[(''_id'', Oid 2), (''score'', Num 5)]],
          [[(''_id'', Oid 3), (''score'', Num 9)]]]"
  by code_simp

text \<open>
  C2. One page of size 3 over \<open>db3\<close>, sorted by score in descending order, holds all three
  documents, so its end cursor (identifier 1) is the last record and no record lies
  beyond it; \<open>hasNextPage\<close> resolves to \<open>true\<close>, because \<open>(score < 1) OR (_id > 1)\<close> admits
  the documents 2 and 3 of the page itself.
\<close>

theorem hasNextPage_true_on_last_page:
  "aggregate db3 [Sort ''score'' (- 1)] =
     Inr [[(''_id'', Oid 3), (''score'', Num 9)], [(''_id'', Oid 2), (''score'', Num 5)],
          [(''_id'', Oid 1), (''score'', Num 1)]]
   \<and> fst (getEdges regex_literal
          (constructor (caller_mem []) db3 0 \<lparr>first = Some 3, after = None\<rparr>
             \<lparr>field = ''score'', order = - 1\<rparr> [] [])) =
     Inr [\<lparr>node = [(''_id'', Oid 3), (''score'', Num 9)], cursor = Some (Oid 3)\<rparr>,
          \<lparr>node = [(''_id'', Oid 2), (''score'', Num 5)], cursor = Some (Oid 2)\<rparr>,
          \<lparr>node = [(''_id'', Oid 1), (''score'', Num 1)], cursor = Some (Oid 1)\<rparr>]
   \<and> fst (getEndCursor regex_literal
          (constructor (caller_mem []) db3 0 \<lparr>first = Some 3, after = None\<rparr>
             \<lparr>field = ''score'', order = - 1\<rparr> [] [])) = Inr (Some (Oid 1))
   \<and> fst (hasNextPage regex_literal
          (constructor (caller_mem []) db3 0 \<lparr>first = Some 3, after = None\<rparr>
             \<lparr>field = ''score'', order = - 1\<rparr> [] [])) = Inr True"
  by code_simp

end
